theory Spec2Isabelle
  imports Main "HOL-Library.Multiset" "HOL-Library.Word"
begin

section \<open>Values, rows and the two connections\<close>

text \<open>
  The migrator is one command class with two connection fields and thirteen
  per-table routines. Everything it does is I/O on the two connections and
  on the logger, so the embedding threads a state that holds the two fields,
  the contents of the destination tables, the inserts that have been issued
  but not yet completed, and one chronological list of observable events
  (log lines, connection attempts, statements in the order they are issued,
  close calls).

  A row is the object a driver hands back for one result line: its
  properties in enumeration order. Column values are opaque to the program,
  which only copies them: a value is \<open>undefined\<close>, \<open>null\<close>, an integer of a
  32-bit INT column (read signed) or a string.
\<close>

type_synonym err = string

datatype val = Undefined | Null | Num "32 word" | Str string

type_synonym row = "(string \<times> val) list"

text \<open>\<open>r.c\<close>: reading a property that the object lacks gives \<open>undefined\<close>.\<close>

definition field :: "row \<Rightarrow> string \<Rightarrow> val" where
  "field r c = (case map_of r c of None \<Rightarrow> Undefined | Some v \<Rightarrow> v)"

text \<open>Ramda's \<open>values\<close>, and \<open>xs[0]\<close> (again \<open>undefined\<close> when out of range).\<close>

definition values_of :: "row \<Rightarrow> val list" where
  "values_of r = map snd r"

definition first_elem :: "val list \<Rightarrow> val" where
  "first_elem xs = (case xs of [] \<Rightarrow> Undefined | x # _ \<Rightarrow> x)"

text \<open>
  Ramda's \<open>without(list1, list2)\<close>: the elements of \<open>list2\<close>, in order, that do
  not occur in \<open>list1\<close>.
\<close>

definition without :: "'a list \<Rightarrow> 'a list \<Rightarrow> 'a list" where
  "without list1 list2 = filter (\<lambda>y. y \<notin> set list1) list2"

text \<open>Decimal rendering of numbers, for the two string conversions below.\<close>

function decimal :: "nat \<Rightarrow> string" where
  "decimal n = (if n < 10 then [''0123456789'' ! n]
                else decimal (n div 10) @ [''0123456789'' ! (n mod 10)])"
  by pat_completeness auto
termination
  by (relation "measure (\<lambda>n. n)") auto

definition to_string :: "val \<Rightarrow> string" where
  "to_string v = (case v of
       Undefined \<Rightarrow> ''undefined''
     | Null \<Rightarrow> ''null''
     | Num w \<Rightarrow> (if sint w < 0 then CHR ''-'' # decimal (nat (- sint w))
                else decimal (nat (sint w)))
     | Str s \<Rightarrow> s)"

text \<open>
  \<open>xs.join(sep)\<close>: like string conversion, except that \<open>undefined\<close> and \<open>null\<close>
  elements are rendered as the empty string.
\<close>

definition join_elem :: "val \<Rightarrow> string" where
  "join_elem v = (case v of Undefined \<Rightarrow> [] | Null \<Rightarrow> [] | _ \<Rightarrow> to_string v)"

fun join :: "string \<Rightarrow> val list \<Rightarrow> string" where
  "join sep [] = []"
| "join sep [x] = join_elem x"
| "join sep (x # y # ys) = join_elem x @ sep @ join sep (y # ys)"

text \<open>
  \<open>ConnectionOptions\<close>, and what \<open>createConnection\<close> receives after \<open>pick\<close>:
  host, password, username, database and port for the connection named
  "mysql", the file name alone for the connection named "sqlite".
\<close>

record ConnectionOptions =
  host :: string
  password :: string
  username :: string
  database :: string
  filename :: string
  port :: "int option"

datatype connection = Mysql | Sqlite

datatype conn_request =
    MysqlOptions string string string string "int option"
  | SqliteOptions string

text \<open>
  The statements the program sends, one constructor per SQL text:
  \<open>show tables\<close>; \<open>select name from sqlite_master where type = 'table'\<close>;
  \<open>select * from T\<close>; \<open>delete from T\<close>; and
  \<open>insert into T(c1, ..., cn) values(?, ..., ?)\<close> with its bound parameters.
\<close>

datatype stmt =
    ShowTables
  | SqliteMaster
  | SelectAll string
  | DeleteFrom string
  | InsertInto string "string list" "val list"

datatype event =
    Info string
  | Error string "err option"
  | Open conn_request
  | Query connection stmt
  | Close connection

record state =
  mysql :: "connection option"
  sqlite :: "connection option"
  dest :: "string \<Rightarrow> row list"
  inflight :: "stmt list"
  trace :: "event list"

text \<open>
  The behaviour of the collaborators is a parameter: whether a connection
  attempt fails, what the source engine answers to a statement, what the
  destination catalogue query answers, whether the destination engine
  rejects a delete or an insert in its current state, which of the inserts
  that are in flight at the same time the destination engine completes
  next, and whether closing a connection fails.
\<close>

record env =
  connect_error :: "conn_request \<Rightarrow> err option"
  mysql_reply :: "stmt \<Rightarrow> err + row list"
  sqlite_master_reply :: "err + row list"
  delete_error :: "(string \<Rightarrow> row list) \<Rightarrow> string \<Rightarrow> err option"
  insert_error :: "(string \<Rightarrow> row list) \<Rightarrow> string \<Rightarrow> row \<Rightarrow> err option"
  next_served :: "(string \<Rightarrow> row list) \<Rightarrow> stmt list \<Rightarrow> nat"
  close_error :: "connection \<Rightarrow> err option"

definition emit :: "event \<Rightarrow> state \<Rightarrow> state" where
  "emit e s = s\<lparr>trace := trace s @ [e]\<rparr>"

definition info :: "string \<Rightarrow> state \<Rightarrow> state" where
  "info msg s = emit (Info msg) s"

definition error :: "string \<Rightarrow> err option \<Rightarrow> state \<Rightarrow> state" where
  "error msg payload s = emit (Error msg payload) s"

definition createConnection :: "env \<Rightarrow> conn_request \<Rightarrow> err + connection" where
  "createConnection E req =
     (case connect_error E req of
        Some e \<Rightarrow> Inl e
      | None \<Rightarrow> Inr (case req of MysqlOptions _ _ _ _ _ \<Rightarrow> Mysql | SqliteOptions _ \<Rightarrow> Sqlite))"

text \<open>Calling \<open>.query\<close> on a field that holds no connection is a TypeError.\<close>

definition type_error :: err where
  "type_error = ''TypeError''"

text \<open>\<open>await this.mysql.query(q)\<close>: the source is only ever read.\<close>

definition mysql_query :: "env \<Rightarrow> stmt \<Rightarrow> state \<Rightarrow> (err + row list) \<times> state" where
  "mysql_query E q s =
     (case mysql s of
        None \<Rightarrow> (Inl type_error, s)
      | Some c \<Rightarrow> (mysql_reply E q, emit (Query c q) s))"

text \<open>
  The destination engine completing one statement. A delete empties the
  table, an insert adds the row made of the statement's columns and bound
  values, a parameter bound to \<open>undefined\<close> being stored as NULL; either may be
  rejected, and then changes nothing.
\<close>

definition stored_value :: "val \<Rightarrow> val" where
  "stored_value v = (if v = Undefined then Null else v)"

fun sqlite_serve :: "env \<Rightarrow> stmt \<Rightarrow> state \<Rightarrow> (err + row list) \<times> state" where
  "sqlite_serve E SqliteMaster s = (sqlite_master_reply E, s)"
| "sqlite_serve E (DeleteFrom t) s =
     (case delete_error E (dest s) t of
        Some e \<Rightarrow> (Inl e, s)
      | None \<Rightarrow> (Inr [], s\<lparr>dest := (dest s)(t := [])\<rparr>))"
| "sqlite_serve E (InsertInto t cols vals) s =
     (case insert_error E (dest s) t (zip cols (map stored_value vals)) of
        Some e \<Rightarrow> (Inl e, s)
      | None \<Rightarrow>
          (Inr [], s\<lparr>dest := (dest s)(t := dest s t @ [zip cols (map stored_value vals)])\<rparr>))"
| "sqlite_serve E (SelectAll t) s = (Inr (dest s t), s)"
| "sqlite_serve E ShowTables s = (Inl ''SQLITE_ERROR'', s)"

text \<open>\<open>await this.sqlite.query(q)\<close>: issued and completed before the caller goes on.\<close>

definition sqlite_query :: "env \<Rightarrow> stmt \<Rightarrow> state \<Rightarrow> (err + row list) \<times> state" where
  "sqlite_query E q s =
     (case sqlite s of
        None \<Rightarrow> (Inl type_error, s)
      | Some c \<Rightarrow> sqlite_serve E q (emit (Query c q) s))"

section \<open>Connection provisioning\<close>

definition connectMysql :: "env \<Rightarrow> conn_request \<Rightarrow> state \<Rightarrow> connection option \<times> state" where
  "connectMysql E config s =
     (let s1 = emit (Open config) (info ''Connecting to mysql...'' s)
      in case createConnection E config of
           Inr c \<Rightarrow> (Some c, s1)
         | Inl e \<Rightarrow> (None, error ''Unable to connect.'' (Some e) s1))"

definition connectSqlite :: "env \<Rightarrow> conn_request \<Rightarrow> state \<Rightarrow> connection option \<times> state" where
  "connectSqlite E config s =
     (let s1 = emit (Open config) (info ''Connecting to sqlite...'' s)
      in case createConnection E config of
           Inr c \<Rightarrow> (Some c, s1)
         | Inl e \<Rightarrow> (None, error ''Unable to connect.'' (Some e) s1))"

section \<open>The thirteen table migrations\<close>

text \<open>
  Each routine of the source is the same three steps with its own table
  name, its own column list and, for channels, groups and users, one info
  line per row. A table description holds exactly what differs.
\<close>

record tablespec =
  tname :: string
  columns :: "string list"
  announce :: "string option"

definition insert_stmt :: "tablespec \<Rightarrow> row \<Rightarrow> stmt" where
  "insert_stmt ts r = InsertInto (tname ts) (columns ts) (map (field r) (columns ts))"

definition announcement :: "tablespec \<Rightarrow> row \<Rightarrow> event list" where
  "announcement ts r =
     (case announce ts of
        None \<Rightarrow> []
      | Some what \<Rightarrow> [Info (''Migrating '' @ what @ '' \"'' @ to_string (field r ''name''))])"

text \<open>
  The inserts of one table are in flight together, and so may be inserts
  that an earlier routine left behind when it failed (\<open>old\<close>). The engine
  completes the statements in flight one at a time, in an order of its own
  choosing: \<open>next_served\<close> picks the one completed next. \<open>Promise.all\<close> settles
  as soon as one of the routine's own inserts (\<open>mine\<close>) is rejected, or when
  all of them have been accepted; the result of an old insert goes to a
  promise nobody awaits any more. The function returns the results of the
  routine's own inserts completed until then, in completion order, the
  statements still in flight, and the state.

  An insert left in flight is completed at one of the moments at which the
  embedding lets the engine run: during the write phase of a later routine,
  or when the destination connection is closed. It is an insert into the
  table of the routine that issued it, which no other routine reads or
  writes.
\<close>

function serve_writes ::
  "env \<Rightarrow> stmt list \<Rightarrow> stmt list \<Rightarrow> state \<Rightarrow> (stmt \<times> (err + row list)) list \<times> stmt list \<times> state" where
  "serve_writes E old mine s =
     (if mine = [] then ([], old, s)
      else
        (let i = next_served E (dest s) (old @ mine) mod length (old @ mine)
         in if i < length old
            then serve_writes E (take i old @ drop (Suc i) old) mine
                   (snd (sqlite_serve E (old ! i) s))
            else
              (let j = i - length old;
                   served = sqlite_serve E (mine ! j) s;
                   rest = take j mine @ drop (Suc j) mine
               in if isl (fst served)
                  then ([(mine ! j, fst served)], old @ rest, snd served)
                  else (let r = serve_writes E old rest (snd served)
                        in ((mine ! j, fst served) # fst r, snd r)))))"
  by pat_completeness auto
termination
proof (relation "measure (\<lambda>(E, old, mine, s). length old + length mine)", goal_cases)
  case 1
  show ?case by simp
next
  case (2 E old mine s)
  then show ?case by (simp add: min_def)
next
  case (3 E old mine s i j served rest)
  define n where "n = next_served E (dest s) (old @ mine) mod (length old + length mine)"
  have "n < length old + length mine"
    using 3(1) by (simp add: n_def)
  moreover have "\<not> n < length old"
    using 3 by (simp add: n_def)
  ultimately show ?case
    using 3 by (simp add: min_def n_def[symmetric])
qed

text \<open>\<open>Promise.all\<close> rejects with the first rejection, in completion order.\<close>

fun first_rejection :: "('a \<times> (err + 'b)) list \<Rightarrow> err option" where
  "first_rejection [] = None"
| "first_rejection ((q, Inl e) # rs) = Some e"
| "first_rejection ((q, Inr v) # rs) = first_rejection rs"

text \<open>
  \<open>await Promise.all(rows.map(async row => { ...; await this.sqlite.query(insert, [...]) }))\<close>.
  The callbacks run one after the other up to their first await, so the
  info lines and the inserts are issued in the order of the rows; then the
  engine completes statements until \<open>Promise.all\<close> settles. When it rejects,
  the routine's inserts not yet completed stay in flight.
\<close>

definition write_rows :: "env \<Rightarrow> tablespec \<Rightarrow> row list \<Rightarrow> state \<Rightarrow> err option \<times> state" where
  "write_rows E ts rows s =
     (case sqlite s of
        None \<Rightarrow>
          (if rows = [] then None else Some type_error,
           s\<lparr>trace := trace s @ concat (map (announcement ts) rows)\<rparr>)
      | Some c \<Rightarrow>
          (let issued = s\<lparr>trace := trace s @
                 concat (map (\<lambda>r. announcement ts r @ [Query c (insert_stmt ts r)]) rows)\<rparr>;
               settled = serve_writes E (inflight issued) (map (insert_stmt ts) rows) issued
           in (first_rejection (fst settled),
               (snd (snd settled))\<lparr>inflight := fst (snd settled)\<rparr>)))"

definition migrateTable :: "env \<Rightarrow> tablespec \<Rightarrow> state \<Rightarrow> err option \<times> state" where
  "migrateTable E ts s =
     (case mysql_query E (SelectAll (tname ts)) s of
        (Inl e, s1) \<Rightarrow> (Some e, s1)
      | (Inr rows, s1) \<Rightarrow>
          (case sqlite_query E (DeleteFrom (tname ts)) s1 of
             (Inl e, s2) \<Rightarrow> (Some e, s2)
           | (Inr _, s2) \<Rightarrow> write_rows E ts rows s2))"

definition acl_table :: tablespec where
  "acl_table = \<lparr>tname = ''acl'',
     columns = [''server_id'', ''channel_id'', ''priority'', ''user_id'', ''group_name'',
                ''apply_here'', ''apply_sub'', ''grantpriv'', ''revokepriv''],
     announce = None\<rparr>"

definition bans_table :: tablespec where
  "bans_table = \<lparr>tname = ''bans'',
     columns = [''server_id'', ''base'', ''mask'', ''name'', ''hash'', ''reason'', ''start'',
                ''duration''],
     announce = None\<rparr>"

definition channel_info_table :: tablespec where
  "channel_info_table = \<lparr>tname = ''channel_info'',
     columns = [''server_id'', ''channel_id'', ''key'', ''value''],
     announce = None\<rparr>"

definition channel_links_table :: tablespec where
  "channel_links_table = \<lparr>tname = ''channel_links'',
     columns = [''server_id'', ''channel_id'', ''link_id''],
     announce = None\<rparr>"

definition channels_table :: tablespec where
  "channels_table = \<lparr>tname = ''channels'',
     columns = [''server_id'', ''channel_id'', ''parent_id'', ''name'', ''inheritacl''],
     announce = Some ''channel''\<rparr>"

definition config_table :: tablespec where
  "config_table = \<lparr>tname = ''config'',
     columns = [''server_id'', ''key'', ''value''],
     announce = None\<rparr>"

definition group_members_table :: tablespec where
  "group_members_table = \<lparr>tname = ''group_members'',
     columns = [''group_id'', ''server_id'', ''user_id'', ''addit''],
     announce = None\<rparr>"

definition groups_table :: tablespec where
  "groups_table = \<lparr>tname = ''groups'',
     columns = [''group_id'', ''server_id'', ''name'', ''channel_id'', ''inherit'',
                ''inheritable''],
     announce = Some ''group''\<rparr>"

definition meta_table :: tablespec where
  "meta_table = \<lparr>tname = ''meta'',
     columns = [''keystring'', ''value''],
     announce = None\<rparr>"

definition servers_table :: tablespec where
  "servers_table = \<lparr>tname = ''servers'',
     columns = [''server_id''],
     announce = None\<rparr>"

definition slog_table :: tablespec where
  "slog_table = \<lparr>tname = ''slog'',
     columns = [''server_id'', ''msg'', ''msgtime''],
     announce = None\<rparr>"

definition user_info_table :: tablespec where
  "user_info_table = \<lparr>tname = ''user_info'',
     columns = [''server_id'', ''user_id'', ''key'', ''value''],
     announce = None\<rparr>"

definition users_table :: tablespec where
  "users_table = \<lparr>tname = ''users'',
     columns = [''server_id'', ''user_id'', ''name'', ''pw'', ''salt'', ''kdfiterations'',
                ''lastchannel'', ''texture'', ''last_active''],
     announce = Some ''user''\<rparr>"

definition migrateAcl :: "env \<Rightarrow> state \<Rightarrow> err option \<times> state" where
  "migrateAcl E = migrateTable E acl_table"

definition migrateBans :: "env \<Rightarrow> state \<Rightarrow> err option \<times> state" where
  "migrateBans E = migrateTable E bans_table"

definition migrateChannelInfo :: "env \<Rightarrow> state \<Rightarrow> err option \<times> state" where
  "migrateChannelInfo E = migrateTable E channel_info_table"

definition migrateChannelLinks :: "env \<Rightarrow> state \<Rightarrow> err option \<times> state" where
  "migrateChannelLinks E = migrateTable E channel_links_table"

definition migrateChannels :: "env \<Rightarrow> state \<Rightarrow> err option \<times> state" where
  "migrateChannels E = migrateTable E channels_table"

definition migrateConfig :: "env \<Rightarrow> state \<Rightarrow> err option \<times> state" where
  "migrateConfig E = migrateTable E config_table"

definition migrateGroupMembers :: "env \<Rightarrow> state \<Rightarrow> err option \<times> state" where
  "migrateGroupMembers E = migrateTable E group_members_table"

definition migrateGroups :: "env \<Rightarrow> state \<Rightarrow> err option \<times> state" where
  "migrateGroups E = migrateTable E groups_table"

definition migrateMeta :: "env \<Rightarrow> state \<Rightarrow> err option \<times> state" where
  "migrateMeta E = migrateTable E meta_table"

definition migrateServers :: "env \<Rightarrow> state \<Rightarrow> err option \<times> state" where
  "migrateServers E = migrateTable E servers_table"

definition migrateSlog :: "env \<Rightarrow> state \<Rightarrow> err option \<times> state" where
  "migrateSlog E = migrateTable E slog_table"

definition migrateUserInfos :: "env \<Rightarrow> state \<Rightarrow> err option \<times> state" where
  "migrateUserInfos E = migrateTable E user_info_table"

definition migrateUsers :: "env \<Rightarrow> state \<Rightarrow> err option \<times> state" where
  "migrateUsers E = migrateTable E users_table"

section \<open>Schema validation\<close>

definition expectedTables :: "val list" where
  "expectedTables = map Str
     [''acl'', ''bans'', ''channel_info'', ''channel_links'', ''channels'', ''config'',
      ''group_members'', ''groups'', ''meta'', ''servers'', ''slog'', ''user_info'', ''users'']"

definition checkTables :: "env \<Rightarrow> state \<Rightarrow> bool \<times> state" where
  "checkTables E s =
     (case mysql_query E ShowTables s of
        (Inl e, s1) \<Rightarrow> (False, error ''Error determining exising tables'' (Some e) s1)
      | (Inr mysqlTables, s1) \<Rightarrow>
          (case sqlite_query E SqliteMaster s1 of
             (Inl e, s2) \<Rightarrow> (False, error ''Error determining exising tables'' (Some e) s2)
           | (Inr sqliteTables, s2) \<Rightarrow>
               (let missingMysqlTables =
                      without (map (\<lambda>row. first_elem (values_of row)) mysqlTables) expectedTables
                in if length missingMysqlTables > 0
                   then (False, error (''Mysql is missing the following tables: '' @
                                         join '', '' missingMysqlTables) None s2)
                   else
                     (let missingSqliteTables =
                            without (map (\<lambda>row. field row ''name'') sqliteTables) expectedTables
                      in if length missingSqliteTables > 0
                         then (False, error (''Sqlite is missing the following tables: '' @
                                               join '', '' missingSqliteTables) None s2)
                         else (True, s2)))))"

section \<open>The orchestrator\<close>

text \<open>
  One \<open>try { info(label); await migrate(); info("Done."); } catch (err) { error("Error.", err); }\<close>
  block.
\<close>

definition attempt :: "string \<Rightarrow> (state \<Rightarrow> err option \<times> state) \<Rightarrow> state \<Rightarrow> state" where
  "attempt label migrate s =
     (case migrate (info label s) of
        (None, s') \<Rightarrow> info ''Done.'' s'
      | (Some e, s') \<Rightarrow> error ''Error.'' (Some e) s')"

text \<open>
  The engine completing every statement in flight, in an order of its own
  choosing.
\<close>

function drain :: "env \<Rightarrow> stmt list \<Rightarrow> state \<Rightarrow> state" where
  "drain E [] s = s"
| "drain E (q # qs) s =
     (let i = next_served E (dest s) (q # qs) mod length (q # qs)
      in drain E (take i (q # qs) @ drop (Suc i) (q # qs))
           (snd (sqlite_serve E ((q # qs) ! i) s)))"
  by pat_completeness auto
termination
  by (relation "measure (\<lambda>(E, qs, s). length qs)") auto

text \<open>
  \<open>await conn.close()\<close>. On a field that holds no connection the call is a
  TypeError. The destination driver runs a close only once no statement is
  in flight on the connection, so the inserts still in flight are completed
  first. A close may fail; nothing in \<open>execute\<close> catches that.
\<close>

definition close_connection :: "env \<Rightarrow> connection option \<Rightarrow> state \<Rightarrow> err option \<times> state" where
  "close_connection E conn s =
     (case conn of
        None \<Rightarrow> (Some type_error, s)
      | Some c \<Rightarrow>
          (let s1 = emit (Close c) s;
               s2 = (case c of
                       Sqlite \<Rightarrow> (drain E (inflight s1) s1)\<lparr>inflight := []\<rparr>
                     | Mysql \<Rightarrow> s1)
           in (close_error E c, s2)))"

text \<open>
  \<open>execute\<close> returns the final state together with the error it rejects with,
  if any (\<open>None\<close>: it returned).
\<close>

definition execute :: "env \<Rightarrow> ConnectionOptions \<Rightarrow> state \<Rightarrow> err option \<times> state" where
  "execute E config s0 =
     (let (m, s1) = connectMysql E
                      (MysqlOptions (host config) (password config) (username config)
                                    (database config) (port config)) s0;
          s2 = s1\<lparr>mysql := m\<rparr>;
          (q, s3) = connectSqlite E (SqliteOptions (filename config)) s2;
          s4 = s3\<lparr>sqlite := q\<rparr>
      in if mysql s4 = None \<or> sqlite s4 = None
         then (None, error ''One database couldn't be connected. Terminating.'' None s4)
         else
          (let (ok, s5) = checkTables E s4;
               s6 = (if \<not> ok then error ''Databases not ok. Terminating.'' None s5 else s5);
               s7 = attempt ''migrating Servers...'' (migrateServers E) s6;
               s8 = attempt ''migrating Channels...'' (migrateChannels E) s7;
               s9 = attempt ''migrating Users...'' (migrateUsers E) s8;
               s10 = attempt ''migrating Groups...'' (migrateGroups E) s9;
               s11 = attempt ''migrating Acl...'' (migrateAcl E) s10;
               s12 = attempt ''migrating Bans...'' (migrateBans E) s11;
               s13 = attempt ''migrating ChannelInfo...'' (migrateChannelInfo E) s12;
               s14 = attempt ''migrating ChannelLinks...'' (migrateChannelLinks E) s13;
               s15 = attempt ''migrating Config...'' (migrateConfig E) s14;
               s16 = attempt ''migrating GroupMembers...'' (migrateGroupMembers E) s15;
               s17 = attempt ''migrating Meta...'' (migrateMeta E) s16;
               s18 = attempt ''migrating Slog...'' (migrateSlog E) s17;
               s19 = attempt ''migrating UserInfos...'' (migrateUserInfos E) s18
           in case close_connection E (sqlite s19) (info ''Closing sqlite...'' s19) of
                (Some e, s20) \<Rightarrow> (Some e, s20)
              | (None, s20) \<Rightarrow>
                  (case close_connection E (mysql s20) (info ''Closing mysql...'' s20) of
                     (Some e, s21) \<Rightarrow> (Some e, s21)
                   | (None, s21) \<Rightarrow> (None, info ''Good bye'' s21))))"

section \<open>Observations on a run\<close>

text \<open>
  The thirteen try blocks of \<open>execute\<close>, in the order in which it runs them:
  the line each one logs first, and the table its routine migrates.
\<close>

definition migration_order :: "(string \<times> tablespec) list" where
  "migration_order =
     [(''migrating Servers...'', servers_table),
      (''migrating Channels...'', channels_table),
      (''migrating Users...'', users_table),
      (''migrating Groups...'', groups_table),
      (''migrating Acl...'', acl_table),
      (''migrating Bans...'', bans_table),
      (''migrating ChannelInfo...'', channel_info_table),
      (''migrating ChannelLinks...'', channel_links_table),
      (''migrating Config...'', config_table),
      (''migrating GroupMembers...'', group_members_table),
      (''migrating Meta...'', meta_table),
      (''migrating Slog...'', slog_table),
      (''migrating UserInfos...'', user_info_table)]"

fun attempts :: "env \<Rightarrow> (string \<times> tablespec) list \<Rightarrow> state \<Rightarrow> state" where
  "attempts E [] s = s"
| "attempts E ((label, ts) # rest) s = attempts E rest (attempt label (migrateTable E ts) s)"

text \<open>
  What each try block's routine ended with (\<open>None\<close>: it returned, \<open>Some e\<close>: it
  failed with \<open>e\<close>), by table name, when the blocks run from state \<open>s\<close>.
\<close>

fun outcomes :: "env \<Rightarrow> (string \<times> tablespec) list \<Rightarrow> state \<Rightarrow> (string \<times> err option) list" where
  "outcomes E [] s = []"
| "outcomes E ((label, ts) # rest) s =
     (tname ts, fst (migrateTable E ts (info label s)))
       # outcomes E rest (attempt label (migrateTable E ts) s)"

text \<open>
  A run starts on a new command object: no field is set, nothing has been
  logged; \<open>d0\<close> is what the destination tables hold before the run.
\<close>

definition fresh :: "(string \<Rightarrow> row list) \<Rightarrow> state" where
  "fresh d0 = \<lparr>mysql = None, sqlite = None, dest = d0, inflight = [], trace = []\<rparr>"

definition mysql_request :: "ConnectionOptions \<Rightarrow> conn_request" where
  "mysql_request config =
     MysqlOptions (host config) (password config) (username config) (database config)
       (port config)"

definition sqlite_request :: "ConnectionOptions \<Rightarrow> conn_request" where
  "sqlite_request config = SqliteOptions (filename config)"

text \<open>The state of \<open>execute\<close> once both fields are assigned (before the guard).\<close>

definition provisioned :: "env \<Rightarrow> ConnectionOptions \<Rightarrow> state \<Rightarrow> state" where
  "provisioned E config s0 =
     (let c1 = connectMysql E (mysql_request config) s0;
          s2 = (snd c1)\<lparr>mysql := fst c1\<rparr>;
          c2 = connectSqlite E (sqlite_request config) s2
      in (snd c2)\<lparr>sqlite := fst c2\<rparr>)"

text \<open>The state in which the first try block starts, when both connections opened.\<close>

definition migration_start :: "env \<Rightarrow> ConnectionOptions \<Rightarrow> state \<Rightarrow> state" where
  "migration_start E config s0 =
     (let checked = checkTables E (provisioned E config s0)
      in if fst checked then snd checked
         else error ''Databases not ok. Terminating.'' None (snd checked))"

text \<open>
  The results of the routine's inserts that were completed before
  \<open>Promise.all\<close> settled, in completion order, when the write phase starts in
  state \<open>s\<close>; and the rows of the inserts that the engine accepted among
  them.
\<close>

definition write_results :: "env \<Rightarrow> tablespec \<Rightarrow> row list \<Rightarrow> state \<Rightarrow> (stmt \<times> (err + row list)) list" where
  "write_results E ts rows s =
     fst (serve_writes E (inflight s) (map (insert_stmt ts) rows) s)"

fun stmt_row :: "stmt \<Rightarrow> row" where
  "stmt_row (InsertInto t cols vals) = zip cols (map stored_value vals)"
| "stmt_row q = []"

definition accepted :: "(stmt \<times> (err + row list)) list \<Rightarrow> row list" where
  "accepted rs = map (\<lambda>r. stmt_row (fst r)) (filter (\<lambda>r. \<not> isl (snd r)) rs)"

definition rejected :: "(stmt \<times> (err + row list)) list \<Rightarrow> bool" where
  "rejected rs = (\<exists>r\<in>set rs. isl (snd r))"

text \<open>The state a write phase starts in: the table has just been emptied.\<close>

definition cleared :: "string \<Rightarrow> state \<Rightarrow> state" where
  "cleared t s = s\<lparr>dest := (dest s)(t := [])\<rparr>"

text \<open>The table a statement is about, and the tables an event list touches.\<close>

fun stmt_table :: "stmt \<Rightarrow> string option" where
  "stmt_table (SelectAll t) = Some t"
| "stmt_table (DeleteFrom t) = Some t"
| "stmt_table (InsertInto t cols vals) = Some t"
| "stmt_table ShowTables = None"
| "stmt_table SqliteMaster = None"

fun event_table :: "event \<Rightarrow> string option" where
  "event_table (Query c q) = stmt_table q"
| "event_table _ = None"

definition tables_touched :: "event list \<Rightarrow> string list" where
  "tables_touched evs = List.map_filter event_table evs"

text \<open>
  Further readings of an event list: the tables read from the source, in
  order; the connections closed, in order; the errors logged by the catch
  clauses of the try blocks, in order; the inserts issued, in order.
\<close>

fun event_select :: "event \<Rightarrow> string option" where
  "event_select (Query c (SelectAll t)) = Some t"
| "event_select ev = None"

definition selected :: "event list \<Rightarrow> string list" where
  "selected evs = List.map_filter event_select evs"

fun event_close :: "event \<Rightarrow> connection option" where
  "event_close (Close c) = Some c"
| "event_close ev = None"

definition closes :: "event list \<Rightarrow> connection list" where
  "closes evs = List.map_filter event_close evs"

fun event_failure :: "event \<Rightarrow> err option" where
  "event_failure (Error msg (Some e)) = (if msg = ''Error.'' then Some e else None)"
| "event_failure ev = None"

definition failures :: "event list \<Rightarrow> err list" where
  "failures evs = List.map_filter event_failure evs"

fun event_insert :: "event \<Rightarrow> stmt option" where
  "event_insert (Query c (InsertInto t cols vals)) = Some (InsertInto t cols vals)"
| "event_insert ev = None"

definition inserts_issued :: "event list \<Rightarrow> stmt list" where
  "inserts_issued evs = List.map_filter event_insert evs"

fun event_delete :: "event \<Rightarrow> string option" where
  "event_delete (Query c (DeleteFrom t)) = Some t"
| "event_delete ev = None"

definition deleted :: "event list \<Rightarrow> string list" where
  "deleted evs = List.map_filter event_delete evs"

text \<open>
  What a table routine may emit after its select: info lines, and deletes
  and inserts on its own table.
\<close>

fun write_event :: "string \<Rightarrow> event \<Rightarrow> bool" where
  "write_event t (Info msg) = True"
| "write_event t (Query c (DeleteFrom u)) = (u = t)"
| "write_event t (Query c (InsertInto u cols vals)) = (u = t)"
| "write_event t ev = False"

definition inserts_into :: "string \<Rightarrow> stmt list \<Rightarrow> bool" where
  "inserts_into t qs = (\<forall>q\<in>set qs. \<exists>cols vals. q = InsertInto t cols vals)"

text \<open>
  The row an insert stores for a source row: the declared columns, read one
  by one, a column the row lacks being stored as NULL.
\<close>

definition stored_row :: "tablespec \<Rightarrow> row \<Rightarrow> row" where
  "stored_row ts r = zip (columns ts) (map (\<lambda>c. stored_value (field r c)) (columns ts))"

text \<open>No statement in flight is about table \<open>t\<close>.\<close>

definition pending_free :: "string \<Rightarrow> stmt list \<Rightarrow> bool" where
  "pending_free t qs = (\<forall>q\<in>set qs. stmt_table q \<noteq> Some t)"

text \<open>The line a try block ends with, given what its routine ended with.\<close>

definition verdict :: "err option \<Rightarrow> event" where
  "verdict r = (case r of None \<Rightarrow> Info ''Done.'' | Some e \<Rightarrow> Error ''Error.'' (Some e))"

text \<open>
  Events that touch no table, close nothing and are not the error line of a
  try block: all that provisioning and validation emit.
\<close>

fun quiet_event :: "event \<Rightarrow> bool" where
  "quiet_event (Info msg) = True"
| "quiet_event (Open r) = True"
| "quiet_event (Query c ShowTables) = True"
| "quiet_event (Query c SqliteMaster) = True"
| "quiet_event (Error msg None) = True"
| "quiet_event (Error msg (Some e)) = (msg \<noteq> ''Error.'')"
| "quiet_event ev = False"

text \<open>
  The events of one try block, from its first line to its last: the label,
  the select on the block's table, then info lines and deletes and inserts
  on that table only, and last the line that says how the routine ended.
\<close>

fun is_verdict :: "event \<Rightarrow> bool" where
  "is_verdict (Info msg) = (msg = ''Done.'')"
| "is_verdict (Error msg (Some e)) = (msg = ''Error.'')"
| "is_verdict ev = False"

fun try_block :: "connection \<Rightarrow> string \<times> tablespec \<Rightarrow> event list \<Rightarrow> bool" where
  "try_block m (label, ts) (Info l # Query c (SelectAll t) # rest) =
     (l = label \<and> c = m \<and> t = tname ts \<and> rest \<noteq> [] \<and>
      list_all (write_event (tname ts)) (butlast rest) \<and> is_verdict (last rest))"
| "try_block m p evs = False"

text \<open>
  The last five lines of \<open>execute\<close>, on two opened connections: what they log
  and call, and what \<open>execute\<close> ends with.
\<close>

definition closing :: "env \<Rightarrow> state \<Rightarrow> err option \<times> state" where
  "closing E s =
     (case close_connection E (Some Sqlite) (info ''Closing sqlite...'' s) of
        (Some e, s20) \<Rightarrow> (Some e, s20)
      | (None, s20) \<Rightarrow>
          (case close_connection E (Some Mysql) (info ''Closing mysql...'' s20) of
             (Some e, s21) \<Rightarrow> (Some e, s21)
           | (None, s21) \<Rightarrow> (None, info ''Good bye'' s21)))"

definition closing_events :: "env \<Rightarrow> event list" where
  "closing_events E =
     [Info ''Closing sqlite...'', Close Sqlite] @
     (case close_error E Sqlite of
        Some e \<Rightarrow> []
      | None \<Rightarrow>
          [Info ''Closing mysql...'', Close Mysql] @
          (case close_error E Mysql of Some e \<Rightarrow> [] | None \<Rightarrow> [Info ''Good bye'']))"

definition closing_result :: "env \<Rightarrow> err option" where
  "closing_result E =
     (case close_error E Sqlite of Some e \<Rightarrow> Some e | None \<Rightarrow> close_error E Mysql)"

abbreviation names :: "(string \<times> tablespec) list \<Rightarrow> string list" where
  "names steps \<equiv> map (\<lambda>p. tname (snd p)) steps"

definition table_order :: "string list" where
  "table_order = [''servers'', ''channels'', ''users'', ''groups'', ''acl'', ''bans'',
     ''channel_info'', ''channel_links'', ''config'', ''group_members'', ''meta'', ''slog'',
     ''user_info'']"

section \<open>A small installation, for concrete runs\<close>

text \<open>
  A source with three servers and no channel, a destination that still holds
  five servers and two channels from an earlier life, catalogues that list
  all thirteen tables (the destination one more), and an engine that
  completes the latest pending insert first.
\<close>

definition demo_options :: ConnectionOptions where
  "demo_options = \<lparr>host = ''localhost'', password = ''secret'', username = ''mumble'',
     database = ''mumble'', filename = ''mumble.sqlite'', port = None\<rparr>"

definition demo_tables :: "string list" where
  "demo_tables = [''acl'', ''bans'', ''channel_info'', ''channel_links'', ''channels'',
     ''config'', ''group_members'', ''groups'', ''meta'', ''servers'', ''slog'', ''user_info'',
     ''users'']"

definition demo_show_tables :: "row list" where
  "demo_show_tables = map (\<lambda>t. [(''Tables_in_mumble'', Str t)]) demo_tables"

definition demo_sqlite_master :: "row list" where
  "demo_sqlite_master = map (\<lambda>t. [(''name'', Str t)]) (demo_tables @ [''sqlite_sequence''])"

definition demo_servers :: "row list" where
  "demo_servers = [[(''server_id'', Num 1)], [(''server_id'', Num 2)], [(''server_id'', Num 3)]]"

definition demo_source :: "stmt \<Rightarrow> err + row list" where
  "demo_source q =
     (case q of
        ShowTables \<Rightarrow> Inr demo_show_tables
      | SelectAll t \<Rightarrow> (if t = ''servers'' then Inr demo_servers else Inr [])
      | _ \<Rightarrow> Inl ''ER_PARSE_ERROR'')"

definition demo_env :: env where
  "demo_env = \<lparr>connect_error = (\<lambda>r. None),
     mysql_reply = demo_source,
     sqlite_master_reply = Inr demo_sqlite_master,
     delete_error = (\<lambda>d t. None),
     insert_error = (\<lambda>d t r. None),
     next_served = (\<lambda>d qs. length qs - 1),
     close_error = (\<lambda>c. None)\<rparr>"

definition demo_stale :: "string \<Rightarrow> row list" where
  "demo_stale t =
     (if t = ''servers''
      then [[(''server_id'', Num 1)], [(''server_id'', Num 2)], [(''server_id'', Num 3)],
            [(''server_id'', Num 4)], [(''server_id'', Num 5)]]
      else if t = ''channels''
      then [[(''server_id'', Num 4), (''channel_id'', Num 0), (''parent_id'', Null),
             (''name'', Str ''Root''), (''inheritacl'', Num 1)],
            [(''server_id'', Num 4), (''channel_id'', Num 1), (''parent_id'', Num 0),
             (''name'', Str ''Lobby''), (''inheritacl'', Num 1)]]
      else [])"

text \<open>A state in which both fields hold their connection.\<close>

definition demo_connected :: state where
  "demo_connected = \<lparr>mysql = Some Mysql, sqlite = Some Sqlite, dest = demo_stale,
     inflight = [], trace = []\<rparr>"

text \<open>
  The same installation with one table gone on each side: the source lacks
  \<open>users\<close>, the destination lacks \<open>acl\<close>.
\<close>

definition partial_env :: env where
  "partial_env = demo_env\<lparr>
     mysql_reply := (\<lambda>q. case q of
        ShowTables \<Rightarrow> Inr (filter (\<lambda>r. r \<noteq> [(''Tables_in_mumble'', Str ''users'')]) demo_show_tables)
      | _ \<Rightarrow> demo_source q),
     sqlite_master_reply := Inr (filter (\<lambda>r. r \<noteq> [(''name'', Str ''acl'')]) demo_sqlite_master)\<rparr>"


text \<open>The same installation with a source that answers no statement.\<close>

definition unreadable_env :: env where
  "unreadable_env = demo_env\<lparr>mysql_reply := (\<lambda>q. Inl ''ER_NO_SUCH_TABLE'')\<rparr>"

text \<open>
  The same installation with a source whose \<open>servers\<close> table has one row and
  one column more than the routine copies.
\<close>

definition wide_servers :: "row list" where
  "wide_servers = [[(''server_id'', Num 1), (''comment'', Str ''main'')]]"

definition wide_env :: env where
  "wide_env = demo_env\<lparr>mysql_reply := (\<lambda>q. case q of
        SelectAll t \<Rightarrow> (if t = ''servers'' then Inr wide_servers else Inr [])
      | _ \<Rightarrow> demo_source q)\<rparr>"

text \<open>The same installation with a destination connection that fails to close.\<close>

definition stuck_env :: env where
  "stuck_env = demo_env\<lparr>close_error := (\<lambda>c. if c = Sqlite then Some ''SQLITE_BUSY'' else None)\<rparr>"

section \<open>Facts about the state and the engine\<close>

lemma emit_fields [simp]:
  "mysql (emit e s) = mysql s" "sqlite (emit e s) = sqlite s"
  "dest (emit e s) = dest s" "inflight (emit e s) = inflight s"
  "trace (emit e s) = trace s @ [e]"
  by (simp_all add: emit_def)

lemma info_fields [simp]:
  "mysql (info msg s) = mysql s" "sqlite (info msg s) = sqlite s"
  "dest (info msg s) = dest s" "inflight (info msg s) = inflight s"
  "trace (info msg s) = trace s @ [Info msg]"
  by (simp_all add: info_def)

lemma error_fields [simp]:
  "mysql (error msg p s) = mysql s" "sqlite (error msg p s) = sqlite s"
  "dest (error msg p s) = dest s" "inflight (error msg p s) = inflight s"
  "trace (error msg p s) = trace s @ [Error msg p]"
  by (simp_all add: error_def)

lemma sqlite_serve_fields [simp]:
  "mysql (snd (sqlite_serve E q s)) = mysql s"
  "sqlite (snd (sqlite_serve E q s)) = sqlite s"
  "inflight (snd (sqlite_serve E q s)) = inflight s"
  "trace (snd (sqlite_serve E q s)) = trace s"
  by (cases q; simp split: option.splits)+

lemma sqlite_serve_other_table:
  "stmt_table q \<noteq> Some u \<Longrightarrow> dest (snd (sqlite_serve E q s)) u = dest s u"
  by (cases q) (simp_all split: option.splits)

lemma sqlite_serve_trace_upd:
  "sqlite_serve E q (s\<lparr>trace := x\<rparr>) =
     (fst (sqlite_serve E q s), (snd (sqlite_serve E q s))\<lparr>trace := x\<rparr>)"
  by (cases q) (simp_all split: option.splits)

text \<open>Removing one element of a list keeps the others.\<close>

lemma mset_remove_nth:
  "i < length xs \<Longrightarrow> add_mset (xs ! i) (mset (take i xs @ drop (Suc i) xs)) = mset xs"
  by (metis Cons_nth_drop_Suc append_take_drop_id mset.simps(2) mset_append union_mset_add_mset_right)

lemma set_remove_nth: "set (take i xs @ drop (Suc i) xs) \<subseteq> set xs"
  by (auto dest: in_set_takeD in_set_dropD)

lemma pending_free_remove: "pending_free u qs \<Longrightarrow> pending_free u (take i qs @ drop (Suc i) qs)"
  using set_remove_nth[of i qs] by (auto simp: pending_free_def)

lemma pending_free_append [simp]:
  "pending_free u (xs @ ys) \<longleftrightarrow> pending_free u xs \<and> pending_free u ys"
  by (auto simp: pending_free_def)

lemma pending_free_Nil [simp]: "pending_free u []"
  by (simp add: pending_free_def)

lemma pending_free_nth: "pending_free u qs \<Longrightarrow> i < length qs \<Longrightarrow> stmt_table (qs ! i) \<noteq> Some u"
  by (simp add: pending_free_def)

lemma pending_free_subset: "pending_free u qs \<Longrightarrow> set ps \<subseteq> set qs \<Longrightarrow> pending_free u ps"
  by (auto simp: pending_free_def)

lemma inserts_into_nth:
  "inserts_into t qs \<Longrightarrow> i < length qs \<Longrightarrow> \<exists>cols vals. qs ! i = InsertInto t cols vals"
  by (simp add: inserts_into_def)

lemma inserts_into_remove: "inserts_into t qs \<Longrightarrow> inserts_into t (take i qs @ drop (Suc i) qs)"
  using set_remove_nth[of i qs] by (auto simp: inserts_into_def)

lemma inserts_into_pending_free: "inserts_into t qs \<Longrightarrow> u \<noteq> t \<Longrightarrow> pending_free u qs"
  by (auto simp: inserts_into_def pending_free_def)

text \<open>Completing everything in flight.\<close>

lemma drain_fields:
  "mysql (drain E qs s) = mysql s \<and> sqlite (drain E qs s) = sqlite s \<and>
   inflight (drain E qs s) = inflight s \<and> trace (drain E qs s) = trace s"
  by (induction E qs s rule: drain.induct) (simp_all add: Let_def del: length_Cons)

lemma drain_other_table:
  "pending_free u qs \<Longrightarrow> dest (drain E qs s) u = dest s u"
proof (induction E qs s rule: drain.induct)
  case (1 E s)
  show ?case by simp
next
  case (2 E q qs s)
  define i where "i = next_served E (dest s) (q # qs) mod length (q # qs)"
  have i: "i < length (q # qs)" by (simp add: i_def)
  have "dest (drain E (take i (q # qs) @ drop (Suc i) (q # qs))
                (snd (sqlite_serve E ((q # qs) ! i) s))) u =
        dest (snd (sqlite_serve E ((q # qs) ! i) s)) u"
    by (rule 2(1)[OF i_def]) (rule pending_free_remove[OF "2.prems"])
  also have "\<dots> = dest s u"
    by (rule sqlite_serve_other_table) (rule pending_free_nth[OF "2.prems" i])
  finally show ?case
    by (simp add: Let_def i_def del: length_Cons)
qed

section \<open>The write phase\<close>

declare serve_writes.simps [simp del]

lemma serve_writes_Nil [simp]: "serve_writes E old [] s = ([], old, s)"
  by (subst serve_writes.simps) simp

lemma serve_writes_old:
  assumes "mine \<noteq> []" and "i = next_served E (dest s) (old @ mine) mod length (old @ mine)"
    and "i < length old"
  shows "serve_writes E old mine s =
           serve_writes E (take i old @ drop (Suc i) old) mine (snd (sqlite_serve E (old ! i) s))"
  using assms by (subst serve_writes.simps) (simp add: Let_def)

lemma serve_writes_rejected:
  assumes "mine \<noteq> []"
    and "length old + j = next_served E (dest s) (old @ mine) mod length (old @ mine)"
    and "isl (fst (sqlite_serve E (mine ! j) s))"
  shows "serve_writes E old mine s =
           ([(mine ! j, fst (sqlite_serve E (mine ! j) s))],
            old @ take j mine @ drop (Suc j) mine,
            snd (sqlite_serve E (mine ! j) s))"
  using assms(1,3) unfolding serve_writes.simps[of E old mine s] assms(2)[symmetric]
  by (simp add: Let_def)

lemma serve_writes_accepted:
  assumes "mine \<noteq> []"
    and "length old + j = next_served E (dest s) (old @ mine) mod length (old @ mine)"
    and "\<not> isl (fst (sqlite_serve E (mine ! j) s))"
  shows "serve_writes E old mine s =
           ((mine ! j, fst (sqlite_serve E (mine ! j) s))
              # fst (serve_writes E old (take j mine @ drop (Suc j) mine)
                       (snd (sqlite_serve E (mine ! j) s))),
            snd (serve_writes E old (take j mine @ drop (Suc j) mine)
                       (snd (sqlite_serve E (mine ! j) s))))"
  using assms(1,3) unfolding serve_writes.simps[of E old mine s] assms(2)[symmetric]
  by (simp add: Let_def)

text \<open>Induction along the completions of one write phase.\<close>

lemma serve_writes_induct [case_names settled old rejected accepted]:
  assumes "\<And>old s. P old [] s"
    and "\<And>old mine s i. mine \<noteq> [] \<Longrightarrow>
           i = next_served E (dest s) (old @ mine) mod length (old @ mine) \<Longrightarrow> i < length old \<Longrightarrow>
           P (take i old @ drop (Suc i) old) mine (snd (sqlite_serve E (old ! i) s)) \<Longrightarrow>
           P old mine s"
    and "\<And>old mine s j. mine \<noteq> [] \<Longrightarrow> j < length mine \<Longrightarrow>
           length old + j = next_served E (dest s) (old @ mine) mod length (old @ mine) \<Longrightarrow>
           isl (fst (sqlite_serve E (mine ! j) s)) \<Longrightarrow> P old mine s"
    and "\<And>old mine s j. mine \<noteq> [] \<Longrightarrow> j < length mine \<Longrightarrow>
           length old + j = next_served E (dest s) (old @ mine) mod length (old @ mine) \<Longrightarrow>
           \<not> isl (fst (sqlite_serve E (mine ! j) s)) \<Longrightarrow>
           P old (take j mine @ drop (Suc j) mine) (snd (sqlite_serve E (mine ! j) s)) \<Longrightarrow>
           P old mine s"
  shows "P old mine s"
proof -
  have "F = E \<Longrightarrow> P old mine s" for F
  proof (induction F old mine s rule: serve_writes.induct)
    case (1 F old mine s)
    note F = \<open>F = E\<close>
    show ?case
    proof (cases "mine = []")
      case True
      then show ?thesis using assms(1) by simp
    next
      case False
      define i where "i = next_served F (dest s) (old @ mine) mod length (old @ mine)"
      have i_E: "i = next_served E (dest s) (old @ mine) mod length (old @ mine)"
        by (simp add: i_def F)
      have bound: "i < length old + length mine"
        using False by (simp add: i_def)
      show ?thesis
      proof (cases "i < length old")
        case True
        have "P (take i old @ drop (Suc i) old) mine (snd (sqlite_serve F (old ! i) s))"
          by (rule 1(1)[OF False i_def True F])
        then show ?thesis
          unfolding F by (rule assms(2)[OF False i_E True])
      next
        case old: False
        define j where "j = i - length old"
        have j: "j < length mine" "length old + j = i"
          using old bound by (simp_all add: j_def)
        have j_E: "length old + j = next_served E (dest s) (old @ mine) mod length (old @ mine)"
          by (simp add: j(2) i_E)
        show ?thesis
        proof (cases "isl (fst (sqlite_serve E (mine ! j) s))")
          case True
          show ?thesis
            by (rule assms(3)[OF False j(1) j_E True])
        next
          case acc: False
          have "P old (take j mine @ drop (Suc j) mine) (snd (sqlite_serve F (mine ! j) s))"
            by (rule 1(2)[OF False i_def old j_def refl refl _ F]) (simp add: acc F)
          then show ?thesis
            unfolding F by (rule assms(4)[OF False j(1) j_E acc])
        qed
      qed
    qed
  qed
  then show ?thesis by simp
qed

lemma serve_writes_fields:
  "mysql (snd (snd (serve_writes E old mine s))) = mysql s \<and>
   sqlite (snd (snd (serve_writes E old mine s))) = sqlite s \<and>
   trace (snd (snd (serve_writes E old mine s))) = trace s"
proof (induction old mine s rule: serve_writes_induct[where E = E])
  case (settled old s)
  show ?case by simp
next
  case (old old mine s i)
  then show ?case by (simp add: serve_writes_old[OF old(1,2,3)])
next
  case (rejected old mine s j)
  show ?case by (simp add: serve_writes_rejected[OF rejected(1,3,4)])
next
  case (accepted old mine s j)
  then show ?case by (simp add: serve_writes_accepted[OF accepted(1,3,4)])
qed

lemma serve_writes_trace_upd:
  "serve_writes E old mine (s\<lparr>trace := x\<rparr>) =
     (fst (serve_writes E old mine s), fst (snd (serve_writes E old mine s)),
      (snd (snd (serve_writes E old mine s)))\<lparr>trace := x\<rparr>)"
proof (induction old mine s rule: serve_writes_induct[where E = E])
  case (settled old s)
  show ?case by simp
next
  case (old old mine s i)
  have i: "i = next_served E (dest (s\<lparr>trace := x\<rparr>)) (old @ mine) mod length (old @ mine)"
    using old(2) by simp
  show ?case
    using old(4)
    by (simp add: serve_writes_old[OF old(1,2,3)] serve_writes_old[OF old(1) i old(3)]
          sqlite_serve_trace_upd)
next
  case (rejected old mine s j)
  have j: "length old + j =
             next_served E (dest (s\<lparr>trace := x\<rparr>)) (old @ mine) mod length (old @ mine)"
    using rejected(3) by simp
  have r: "isl (fst (sqlite_serve E (mine ! j) (s\<lparr>trace := x\<rparr>)))"
    using rejected(4) by (simp add: sqlite_serve_trace_upd)
  show ?case
    by (simp add: serve_writes_rejected[OF rejected(1,3,4)] serve_writes_rejected[OF rejected(1) j r]
          sqlite_serve_trace_upd)
next
  case (accepted old mine s j)
  have j: "length old + j =
             next_served E (dest (s\<lparr>trace := x\<rparr>)) (old @ mine) mod length (old @ mine)"
    using accepted(3) by simp
  have r: "\<not> isl (fst (sqlite_serve E (mine ! j) (s\<lparr>trace := x\<rparr>)))"
    using accepted(4) by (simp add: sqlite_serve_trace_upd)
  show ?case
    using accepted(5)
    by (simp add: serve_writes_accepted[OF accepted(1,3,4)] serve_writes_accepted[OF accepted(1) j r]
          sqlite_serve_trace_upd)
qed

lemma accepted_simps [simp]:
  "accepted [] = []"
  "accepted ((q, Inr v) # rs) = stmt_row q # accepted rs"
  "accepted ((q, Inl e) # rs) = accepted rs"
  by (simp_all add: accepted_def)

lemma rejected_simps [simp]:
  "\<not> rejected []"
  "rejected (r # rs) \<longleftrightarrow> isl (snd r) \<or> rejected rs"
  by (simp_all add: rejected_def)

lemma first_rejection_None: "first_rejection rs = None \<longleftrightarrow> \<not> rejected rs"
  by (induction rs rule: first_rejection.induct) simp_all

text \<open>
  Every insert of the routine is either in the results, completed once, or
  still in flight; old statements are completed or still in flight.
\<close>

lemma serve_writes_accounting:
  "\<exists>old' rest. fst (snd (serve_writes E old mine s)) = old' @ rest \<and>
     mset old' \<subseteq># mset old \<and>
     mset (map fst (fst (serve_writes E old mine s))) + mset rest = mset mine \<and>
     (\<not> rejected (fst (serve_writes E old mine s)) \<longrightarrow> rest = [])"
proof (induction old mine s rule: serve_writes_induct[where E = E])
  case (settled old s)
  show ?case by simp
next
  case (old old mine s i)
  then obtain old' rest where
    r: "fst (snd (serve_writes E (take i old @ drop (Suc i) old) mine
                    (snd (sqlite_serve E (old ! i) s)))) = old' @ rest"
       "mset old' \<subseteq># mset (take i old @ drop (Suc i) old)"
       "mset (map fst (fst (serve_writes E (take i old @ drop (Suc i) old) mine
                    (snd (sqlite_serve E (old ! i) s))))) + mset rest = mset mine"
       "\<not> rejected (fst (serve_writes E (take i old @ drop (Suc i) old) mine
                    (snd (sqlite_serve E (old ! i) s)))) \<longrightarrow> rest = []"
    by blast
  have "mset old = add_mset (old ! i) (mset (take i old @ drop (Suc i) old))"
    by (rule mset_remove_nth[OF old(3), symmetric])
  then have "mset (take i old @ drop (Suc i) old) \<subseteq># mset old"
    by (simp del: mset_append)
  with r(2) have "mset old' \<subseteq># mset old"
    by (rule subset_mset.order_trans)
  then show ?case
    unfolding serve_writes_old[OF old(1,2,3)] using r(1,3,4) by blast
next
  case (rejected old mine s j)
  have "mset [mine ! j] + mset (take j mine @ drop (Suc j) mine) = mset mine"
    using mset_remove_nth[OF rejected(2)] by simp
  then show ?case
    unfolding serve_writes_rejected[OF rejected(1,3,4)]
    using rejected(4) by (intro exI[of _ old] exI[of _ "take j mine @ drop (Suc j) mine"]) simp
next
  case (accepted old mine s j)
  then obtain old' rest where
    r: "fst (snd (serve_writes E old (take j mine @ drop (Suc j) mine)
                    (snd (sqlite_serve E (mine ! j) s)))) = old' @ rest"
       "mset old' \<subseteq># mset old"
       "mset (map fst (fst (serve_writes E old (take j mine @ drop (Suc j) mine)
                    (snd (sqlite_serve E (mine ! j) s))))) + mset rest =
          mset (take j mine @ drop (Suc j) mine)"
       "\<not> rejected (fst (serve_writes E old (take j mine @ drop (Suc j) mine)
                    (snd (sqlite_serve E (mine ! j) s)))) \<longrightarrow> rest = []"
    by blast
  have "add_mset (mine ! j) (mset (take j mine @ drop (Suc j) mine)) = mset mine"
    by (rule mset_remove_nth[OF accepted(2)])
  then have "mset (map fst ((mine ! j, fst (sqlite_serve E (mine ! j) s))
               # fst (serve_writes E old (take j mine @ drop (Suc j) mine)
                    (snd (sqlite_serve E (mine ! j) s))))) + mset rest = mset mine"
    using r(3) by (simp del: mset_append)
  then show ?case
    unfolding serve_writes_accepted[OF accepted(1,3,4)]
    using r(1,2,4) accepted(4)
    by (intro exI[of _ old'] exI[of _ rest]) (simp del: mset_append)
qed

lemma serve_writes_other_table:
  "pending_free u old \<Longrightarrow> pending_free u mine \<Longrightarrow>
   dest (snd (snd (serve_writes E old mine s))) u = dest s u"
proof (induction old mine s rule: serve_writes_induct[where E = E])
  case (settled old s)
  show ?case by simp
next
  case (old old mine s i)
  have "dest (snd (sqlite_serve E (old ! i) s)) u = dest s u"
    by (rule sqlite_serve_other_table) (rule pending_free_nth[OF old(5,3)])
  then show ?case
    using old(4)[OF pending_free_remove[OF old(5)] old(6)]
    by (simp add: serve_writes_old[OF old(1,2,3)])
next
  case (rejected old mine s j)
  have "dest (snd (sqlite_serve E (mine ! j) s)) u = dest s u"
    by (rule sqlite_serve_other_table) (rule pending_free_nth[OF rejected(6,2)])
  then show ?case
    by (simp add: serve_writes_rejected[OF rejected(1,3,4)])
next
  case (accepted old mine s j)
  have "dest (snd (sqlite_serve E (mine ! j) s)) u = dest s u"
    by (rule sqlite_serve_other_table) (rule pending_free_nth[OF accepted(7,2)])
  then show ?case
    using accepted(5)[OF accepted(6) pending_free_remove[OF accepted(7)]]
    by (simp add: serve_writes_accepted[OF accepted(1,3,4)])
qed

text \<open>
  The table of the routine, when nothing older is in flight on it: it grows
  by the rows of the accepted inserts, in completion order.
\<close>

lemma serve_writes_own_table:
  "pending_free t old \<Longrightarrow> inserts_into t mine \<Longrightarrow>
   dest (snd (snd (serve_writes E old mine s))) t =
     dest s t @ accepted (fst (serve_writes E old mine s))"
proof (induction old mine s rule: serve_writes_induct[where E = E])
  case (settled old s)
  show ?case by simp
next
  case (old old mine s i)
  have "dest (snd (sqlite_serve E (old ! i) s)) t = dest s t"
    by (rule sqlite_serve_other_table) (rule pending_free_nth[OF old(5,3)])
  then show ?case
    using old(4)[OF pending_free_remove[OF old(5)] old(6)]
    by (simp add: serve_writes_old[OF old(1,2,3)])
next
  case (rejected old mine s j)
  obtain cols vals where q: "mine ! j = InsertInto t cols vals"
    using inserts_into_nth[OF rejected(6,2)] by blast
  have "dest (snd (sqlite_serve E (mine ! j) s)) t = dest s t"
    using rejected(4) by (simp add: q split: option.splits)
  moreover obtain e where "fst (sqlite_serve E (mine ! j) s) = Inl e"
    using rejected(4) by (cases "fst (sqlite_serve E (mine ! j) s)") simp_all
  ultimately show ?case
    by (simp add: serve_writes_rejected[OF rejected(1,3,4)])
next
  case (accepted old mine s j)
  obtain cols vals where q: "mine ! j = InsertInto t cols vals"
    using inserts_into_nth[OF accepted(7,2)] by blast
  have d: "dest (snd (sqlite_serve E (mine ! j) s)) t = dest s t @ [stmt_row (mine ! j)]"
    using accepted(4) by (simp add: q split: option.splits)
  obtain v where v: "fst (sqlite_serve E (mine ! j) s) = Inr v"
    using accepted(4) by (cases "fst (sqlite_serve E (mine ! j) s)") simp_all
  show ?case
    using accepted(5)[OF accepted(6) inserts_into_remove[OF accepted(7)]]
    by (simp add: serve_writes_accepted[OF accepted(1,3,4)] d v)
qed


lemma accepted_all: "\<not> rejected rs \<Longrightarrow> accepted rs = map (\<lambda>r. stmt_row (fst r)) rs"
  by (simp add: accepted_def rejected_def)


lemma stmt_row_insert_stmt [simp]: "stmt_row (insert_stmt ts r) = stored_row ts r"
  by (simp add: insert_stmt_def stored_row_def comp_def)

lemma inserts_into_insert_stmts [simp]: "inserts_into (tname ts) (map (insert_stmt ts) rows)"
  by (auto simp: inserts_into_def insert_stmt_def)

lemma write_results_trace_upd [simp]:
  "write_results E ts rows (s\<lparr>trace := x\<rparr>) = write_results E ts rows s"
  by (simp add: write_results_def serve_writes_trace_upd)

lemma cleared_fields [simp]:
  "mysql (cleared t s) = mysql s" "sqlite (cleared t s) = sqlite s"
  "inflight (cleared t s) = inflight s"
  "trace (cleared t s) = trace s" "dest (cleared t s) = (dest s)(t := [])"
  by (simp_all add: cleared_def)

lemma write_results_emit [simp]:
  "write_results E ts rows (cleared t (emit e s)) = write_results E ts rows (cleared t s)"
proof -
  have "cleared t (emit e s) = (cleared t s)\<lparr>trace := trace s @ [e]\<rparr>"
    by (simp add: cleared_def emit_def)
  then show ?thesis by (simp only: write_results_trace_upd)
qed

text \<open>The write phase on an opened destination connection.\<close>

lemma write_rows_result:
  "sqlite s = Some c \<Longrightarrow> fst (write_rows E ts rows s) = first_rejection (write_results E ts rows s)"
  by (simp add: write_rows_def Let_def serve_writes_trace_upd write_results_def)

lemma write_rows_own_table:
  "sqlite s = Some c \<Longrightarrow> pending_free (tname ts) (inflight s) \<Longrightarrow>
   dest (snd (write_rows E ts rows s)) (tname ts) =
     dest s (tname ts) @ accepted (write_results E ts rows s)"
  by (simp add: write_rows_def Let_def serve_writes_trace_upd write_results_def
        serve_writes_own_table)

lemma write_rows_other_table:
  "sqlite s = Some c \<Longrightarrow> pending_free u (inflight s) \<Longrightarrow> u \<noteq> tname ts \<Longrightarrow>
   dest (snd (write_rows E ts rows s)) u = dest s u"
  by (simp add: write_rows_def Let_def serve_writes_trace_upd
        serve_writes_other_table inserts_into_pending_free[where t = "tname ts"])

lemma write_rows_trace:
  "sqlite s = Some c \<Longrightarrow>
   trace (snd (write_rows E ts rows s)) =
     trace s @ concat (map (\<lambda>r. announcement ts r @ [Query c (insert_stmt ts r)]) rows)"
  by (simp add: write_rows_def Let_def serve_writes_fields)

lemma write_rows_fields:
  "mysql (snd (write_rows E ts rows s)) = mysql s \<and>
   sqlite (snd (write_rows E ts rows s)) = sqlite s"
  by (simp add: write_rows_def Let_def serve_writes_fields split: option.splits)

text \<open>What is in flight after the write phase.\<close>

lemma write_rows_inflight:
  assumes "sqlite s = Some c"
  shows "\<exists>old' rest. inflight (snd (write_rows E ts rows s)) = old' @ rest \<and>
           mset old' \<subseteq># mset (inflight s) \<and>
           mset (map fst (write_results E ts rows s)) + mset rest =
             mset (map (insert_stmt ts) rows) \<and>
           (\<not> rejected (write_results E ts rows s) \<longrightarrow> rest = [])"
  using serve_writes_accounting[of E "inflight s" "map (insert_stmt ts) rows" s] assms
  by (simp add: write_rows_def Let_def serve_writes_trace_upd write_results_def)

lemma write_rows_pending_free:
  assumes "sqlite s = Some c" and "pending_free u (inflight s)"
    and "u \<noteq> tname ts \<or> \<not> rejected (write_results E ts rows s)"
  shows "pending_free u (inflight (snd (write_rows E ts rows s)))"
proof -
  obtain old' rest where r: "inflight (snd (write_rows E ts rows s)) = old' @ rest"
      "mset old' \<subseteq># mset (inflight s)"
      "mset (map fst (write_results E ts rows s)) + mset rest = mset (map (insert_stmt ts) rows)"
      "\<not> rejected (write_results E ts rows s) \<longrightarrow> rest = []"
    using write_rows_inflight[OF assms(1)] by blast
  have "set old' \<subseteq> set (inflight s)"
    using r(2) by (rule set_mset_mono[of "mset old'" "mset (inflight s)", simplified])
  then have old: "pending_free u old'"
    by (rule pending_free_subset[OF assms(2)])
  have "set_mset (mset rest) \<subseteq> set_mset (mset (map (insert_stmt ts) rows))"
    using r(3) by (metis mset_subset_eq_add_right set_mset_mono)
  then have "set rest \<subseteq> set (map (insert_stmt ts) rows)" by simp
  then have "inserts_into (tname ts) rest"
    using inserts_into_insert_stmts[of ts rows] by (auto simp: inserts_into_def)
  then have "pending_free u rest"
    using assms(3) r(4) by (auto intro: inserts_into_pending_free)
  then show ?thesis using old by (simp add: r(1))
qed

section \<open>One table routine\<close>

text \<open>The three ways a table routine can go, on opened connections.\<close>

lemma migrateTable_read_failed:
  assumes "mysql s = Some m" and "mysql_reply E (SelectAll (tname ts)) = Inl e"
  shows "migrateTable E ts s = (Some e, emit (Query m (SelectAll (tname ts))) s)"
  using assms by (simp add: migrateTable_def mysql_query_def)

lemma migrateTable_delete_failed:
  assumes "mysql s = Some m" and "sqlite s = Some c"
    and "mysql_reply E (SelectAll (tname ts)) = Inr rows"
    and "delete_error E (dest s) (tname ts) = Some e"
  shows "migrateTable E ts s =
           (Some e, emit (Query c (DeleteFrom (tname ts))) (emit (Query m (SelectAll (tname ts))) s))"
  using assms by (simp add: migrateTable_def mysql_query_def sqlite_query_def)

lemma migrateTable_write:
  assumes "mysql s = Some m" and "sqlite s = Some c"
    and "mysql_reply E (SelectAll (tname ts)) = Inr rows"
    and "delete_error E (dest s) (tname ts) = None"
  shows "migrateTable E ts s =
           write_rows E ts rows
             (cleared (tname ts)
                (emit (Query c (DeleteFrom (tname ts))) (emit (Query m (SelectAll (tname ts))) s)))"
  using assms by (simp add: migrateTable_def mysql_query_def sqlite_query_def cleared_def emit_def)

lemma migrateTable_fields:
  assumes "mysql s = Some m" and "sqlite s = Some c"
  shows "mysql (snd (migrateTable E ts s)) = Some m \<and> sqlite (snd (migrateTable E ts s)) = Some c"
proof (cases "mysql_reply E (SelectAll (tname ts))")
  case (Inl e)
  show ?thesis using assms by (simp add: migrateTable_read_failed[OF assms(1) Inl])
next
  case (Inr rows)
  show ?thesis
  proof (cases "delete_error E (dest s) (tname ts)")
    case None
    show ?thesis using assms
      by (simp add: migrateTable_write[OF assms Inr None] write_rows_fields)
  next
    case (Some e)
    show ?thesis using assms by (simp add: migrateTable_delete_failed[OF assms Inr Some])
  qed
qed

text \<open>
  A table that is neither the routine's nor the target of a statement in
  flight is left as it was, and stays free of statements in flight.
\<close>

lemma migrateTable_frame:
  assumes "mysql s = Some m" and "sqlite s = Some c" and "u \<noteq> tname ts"
    and "pending_free u (inflight s)"
  shows "dest (snd (migrateTable E ts s)) u = dest s u \<and>
         pending_free u (inflight (snd (migrateTable E ts s)))"
proof (cases "mysql_reply E (SelectAll (tname ts))")
  case (Inl e)
  show ?thesis using assms(4) by (simp add: migrateTable_read_failed[OF assms(1) Inl])
next
  case (Inr rows)
  show ?thesis
  proof (cases "delete_error E (dest s) (tname ts)")
    case None
    let ?s = "cleared (tname ts)
                (emit (Query c (DeleteFrom (tname ts))) (emit (Query m (SelectAll (tname ts))) s))"
    have c: "sqlite ?s = Some c" and p: "pending_free u (inflight ?s)"
      using assms(2,4) by simp_all
    show ?thesis
      using write_rows_other_table[OF c p assms(3), of E rows]
        write_rows_pending_free[OF c p, of ts E rows] assms(3)
      by (simp add: migrateTable_write[OF assms(1,2) Inr None])
  next
    case (Some e)
    show ?thesis using assms(4) by (simp add: migrateTable_delete_failed[OF assms(1,2) Inr Some])
  qed
qed

text \<open>
  A routine that returns has stored one row for every row read, and has left
  none of its inserts in flight.
\<close>

lemma migrateTable_success:
  assumes "mysql s = Some m" and "sqlite s = Some c" and "fst (migrateTable E ts s) = None"
    and "pending_free (tname ts) (inflight s)"
  shows "\<exists>rows. mysql_reply E (SelectAll (tname ts)) = Inr rows \<and>
           mset (dest (snd (migrateTable E ts s)) (tname ts)) = mset (map (stored_row ts) rows) \<and>
           pending_free (tname ts) (inflight (snd (migrateTable E ts s)))"
proof (cases "mysql_reply E (SelectAll (tname ts))")
  case (Inl e)
  show ?thesis using assms(3) by (simp add: migrateTable_read_failed[OF assms(1) Inl])
next
  case (Inr rows)
  show ?thesis
  proof (cases "delete_error E (dest s) (tname ts)")
    case None
    let ?s = "cleared (tname ts)
                (emit (Query c (DeleteFrom (tname ts))) (emit (Query m (SelectAll (tname ts))) s))"
    have c: "sqlite ?s = Some c" and p: "pending_free (tname ts) (inflight ?s)"
      using assms(2,4) by simp_all
    have "first_rejection (write_results E ts rows ?s) = None"
      using assms(3) by (simp add: migrateTable_write[OF assms(1,2) Inr None] write_rows_result[OF c])
    then have ok: "\<not> rejected (write_results E ts rows ?s)"
      by (simp add: first_rejection_None)
    obtain old' rest where r: "inflight (snd (write_rows E ts rows ?s)) = old' @ rest"
      "mset (map fst (write_results E ts rows ?s)) + mset rest = mset (map (insert_stmt ts) rows)"
      "\<not> rejected (write_results E ts rows ?s) \<longrightarrow> rest = []"
      using write_rows_inflight[OF c, of E ts rows] by blast
    have "mset (map fst (write_results E ts rows ?s)) = mset (map (insert_stmt ts) rows)"
      using r(2,3) ok by simp
    then have "image_mset stmt_row (mset (map fst (write_results E ts rows ?s))) =
               image_mset stmt_row (mset (map (insert_stmt ts) rows))"
      by simp
    then have "mset (accepted (write_results E ts rows ?s)) = mset (map (stored_row ts) rows)"
      unfolding accepted_all[OF ok] by (simp add: image_mset.compositionality comp_def)
    moreover have "pending_free (tname ts) (inflight (snd (write_rows E ts rows ?s)))"
      by (rule write_rows_pending_free[OF c p]) (use ok in simp)
    ultimately show ?thesis
      using write_rows_own_table[OF c p, of E rows]
      by (simp add: Inr migrateTable_write[OF assms(1,2) Inr None])
  next
    case (Some e)
    show ?thesis using assms(3) by (simp add: migrateTable_delete_failed[OF assms(1,2) Inr Some])
  qed
qed

lemma write_events_inserts:
  "\<forall>ev\<in>set (concat (map (\<lambda>r. announcement ts r @ [Query c (insert_stmt ts r)]) rows)).
      write_event (tname ts) ev"
  by (auto simp: announcement_def insert_stmt_def split: option.splits)

lemma migrateTable_trace:
  assumes "mysql s = Some m" and "sqlite s = Some c"
  shows "\<exists>evs. trace (snd (migrateTable E ts s)) = trace s @ Query m (SelectAll (tname ts)) # evs \<and>
           (\<forall>ev\<in>set evs. write_event (tname ts) ev)"
proof (cases "mysql_reply E (SelectAll (tname ts))")
  case (Inl e)
  show ?thesis by (simp add: migrateTable_read_failed[OF assms(1) Inl])
next
  case (Inr rows)
  show ?thesis
  proof (cases "delete_error E (dest s) (tname ts)")
    case None
    let ?ins = "concat (map (\<lambda>r. announcement ts r @ [Query c (insert_stmt ts r)]) rows)"
    have "trace (snd (migrateTable E ts s)) =
            trace s @ Query m (SelectAll (tname ts)) # (Query c (DeleteFrom (tname ts)) # ?ins)"
      using assms by (simp add: migrateTable_write[OF assms Inr None] write_rows_trace[where c = c])
    moreover have "\<forall>ev\<in>set (Query c (DeleteFrom (tname ts)) # ?ins). write_event (tname ts) ev"
      using write_events_inserts[of ts c rows] by simp
    ultimately show ?thesis by blast
  next
    case (Some e)
    show ?thesis by (simp add: migrateTable_delete_failed[OF assms Inr Some])
  qed
qed

section \<open>One try block\<close>

lemma map_filter_append: "List.map_filter f (xs @ ys) = List.map_filter f xs @ List.map_filter f ys"
  by (simp add: List.map_filter_def)

lemma write_events_selected: "\<forall>ev\<in>set evs. write_event t ev \<Longrightarrow> selected evs = []"
proof (induction evs)
  case Nil
  show ?case by (simp add: selected_def)
next
  case (Cons ev evs)
  then have "write_event t ev" and "selected evs = []" by simp_all
  then show ?case
    by (cases "(t, ev)" rule: write_event.cases) (simp_all add: selected_def)
qed

lemma write_events_closes: "\<forall>ev\<in>set evs. write_event t ev \<Longrightarrow> closes evs = []"
proof (induction evs)
  case Nil
  show ?case by (simp add: closes_def)
next
  case (Cons ev evs)
  then have "write_event t ev" and "closes evs = []" by simp_all
  then show ?case
    by (cases "(t, ev)" rule: write_event.cases) (simp_all add: closes_def)
qed

lemma write_events_failures: "\<forall>ev\<in>set evs. write_event t ev \<Longrightarrow> failures evs = []"
proof (induction evs)
  case Nil
  show ?case by (simp add: failures_def)
next
  case (Cons ev evs)
  then have "write_event t ev" and "failures evs = []" by simp_all
  then show ?case
    by (cases "(t, ev)" rule: write_event.cases) (simp_all add: failures_def)
qed

lemma write_events_touched:
  "\<forall>ev\<in>set evs. write_event t ev \<Longrightarrow> \<exists>k. tables_touched evs = replicate k t"
proof (induction evs)
  case Nil
  show ?case by (simp add: tables_touched_def)
next
  case (Cons ev evs)
  then obtain k where k: "tables_touched evs = replicate k t" and ev: "write_event t ev"
    by auto
  from ev have "tables_touched (ev # evs) = replicate k t \<or> tables_touched (ev # evs) = replicate (Suc k) t"
    using k by (cases "(t, ev)" rule: write_event.cases)
               (simp_all add: tables_touched_def)
  then show ?case by blast
qed

lemma attempt_eq:
  "attempt label migrate s = emit (verdict (fst (migrate (info label s)))) (snd (migrate (info label s)))"
  by (simp add: attempt_def verdict_def info_def error_def split: prod.splits option.splits)

lemma attempt_fields:
  assumes "mysql s = Some m" and "sqlite s = Some c"
  shows "mysql (attempt label (migrateTable E ts) s) = Some m \<and>
         sqlite (attempt label (migrateTable E ts) s) = Some c"
  using migrateTable_fields[of "info label s" m c E ts] assms by (simp add: attempt_eq)

lemma attempt_dest:
  "dest (attempt label (migrateTable E ts) s) = dest (snd (migrateTable E ts (info label s)))"
  "inflight (attempt label (migrateTable E ts) s) =
     inflight (snd (migrateTable E ts (info label s)))"
  by (simp_all add: attempt_eq)

lemma attempt_trace:
  assumes "mysql s = Some m" and "sqlite s = Some c"
  shows "\<exists>evs. (\<forall>ev\<in>set evs. write_event (tname ts) ev) \<and>
           trace (attempt label (migrateTable E ts) s) =
             trace s @ [Info label, Query m (SelectAll (tname ts))] @ evs @
               [verdict (fst (migrateTable E ts (info label s)))]"
proof -
  obtain evs where "trace (snd (migrateTable E ts (info label s))) =
      trace (info label s) @ Query m (SelectAll (tname ts)) # evs"
    and "\<forall>ev\<in>set evs. write_event (tname ts) ev"
    using migrateTable_trace[of "info label s" m c E ts] assms by auto
  then show ?thesis by (auto simp: attempt_eq)
qed

lemma verdict_projections [simp]:
  "event_select (verdict r) = None" "event_close (verdict r) = None"
  "event_table (verdict r) = None"
  "event_failure (verdict r) = r"
  by (simp_all add: verdict_def split: option.splits)

lemma attempt_selected:
  assumes "mysql s = Some m" and "sqlite s = Some c"
  shows "selected (trace (attempt label (migrateTable E ts) s)) = selected (trace s) @ [tname ts]"
proof -
  obtain evs where w: "\<forall>ev\<in>set evs. write_event (tname ts) ev"
    and t: "trace (attempt label (migrateTable E ts) s) =
             trace s @ [Info label, Query m (SelectAll (tname ts))] @ evs @
               [verdict (fst (migrateTable E ts (info label s)))]"
    using attempt_trace[OF assms] by blast
  have "selected (trace s @ [Info label, Query m (SelectAll (tname ts))] @ evs @
               [verdict (fst (migrateTable E ts (info label s)))]) =
        selected (trace s) @ [tname ts] @ selected evs @ []"
    unfolding selected_def map_filter_append by simp
  then show ?thesis unfolding t by (simp add: write_events_selected[OF w])
qed

lemma attempt_closes:
  assumes "mysql s = Some m" and "sqlite s = Some c"
  shows "closes (trace (attempt label (migrateTable E ts) s)) = closes (trace s)"
proof -
  obtain evs where w: "\<forall>ev\<in>set evs. write_event (tname ts) ev"
    and t: "trace (attempt label (migrateTable E ts) s) =
             trace s @ [Info label, Query m (SelectAll (tname ts))] @ evs @
               [verdict (fst (migrateTable E ts (info label s)))]"
    using attempt_trace[OF assms] by blast
  have "closes (trace s @ [Info label, Query m (SelectAll (tname ts))] @ evs @
               [verdict (fst (migrateTable E ts (info label s)))]) =
        closes (trace s) @ closes evs"
    unfolding closes_def map_filter_append by simp
  then show ?thesis unfolding t by (simp add: write_events_closes[OF w])
qed

lemma attempt_failures:
  assumes "mysql s = Some m" and "sqlite s = Some c"
  shows "failures (trace (attempt label (migrateTable E ts) s)) =
           failures (trace s) @
             (case fst (migrateTable E ts (info label s)) of None \<Rightarrow> [] | Some e \<Rightarrow> [e])"
proof -
  obtain evs where w: "\<forall>ev\<in>set evs. write_event (tname ts) ev"
    and t: "trace (attempt label (migrateTable E ts) s) =
             trace s @ [Info label, Query m (SelectAll (tname ts))] @ evs @
               [verdict (fst (migrateTable E ts (info label s)))]"
    using attempt_trace[OF assms] by blast
  have "failures (trace s @ [Info label, Query m (SelectAll (tname ts))] @ evs @
               [verdict (fst (migrateTable E ts (info label s)))]) =
        failures (trace s) @ failures evs @
          (case fst (migrateTable E ts (info label s)) of None \<Rightarrow> [] | Some e \<Rightarrow> [e])"
    unfolding failures_def map_filter_append
    by (simp split: option.splits)
  then show ?thesis unfolding t by (simp add: write_events_failures[OF w])
qed

lemma attempt_touched:
  assumes "mysql s = Some m" and "sqlite s = Some c"
  shows "\<exists>k. tables_touched (trace (attempt label (migrateTable E ts) s)) =
           tables_touched (trace s) @ replicate (Suc k) (tname ts)"
proof -
  obtain evs where w: "\<forall>ev\<in>set evs. write_event (tname ts) ev"
    and t: "trace (attempt label (migrateTable E ts) s) =
             trace s @ [Info label, Query m (SelectAll (tname ts))] @ evs @
               [verdict (fst (migrateTable E ts (info label s)))]"
    using attempt_trace[OF assms] by blast
  obtain k where k: "tables_touched evs = replicate k (tname ts)"
    using write_events_touched[OF w] by blast
  have "tables_touched (trace s @ [Info label, Query m (SelectAll (tname ts))] @ evs @
               [verdict (fst (migrateTable E ts (info label s)))]) =
        tables_touched (trace s) @ tname ts # tables_touched evs"
    unfolding tables_touched_def map_filter_append by simp
  then show ?thesis unfolding t k by auto
qed

section \<open>The thirteen try blocks in sequence\<close>

lemma attempts_fields:
  "mysql s = Some m \<Longrightarrow> sqlite s = Some c \<Longrightarrow>
   mysql (attempts E steps s) = Some m \<and> sqlite (attempts E steps s) = Some c"
proof (induction steps arbitrary: s)
  case Nil
  then show ?case by simp
next
  case (Cons p steps)
  obtain label ts where p: "p = (label, ts)" by (cases p)
  show ?case
    using Cons.IH[of "attempt label (migrateTable E ts) s"] attempt_fields[OF Cons.prems]
    by (simp add: p)
qed

lemma attempts_selected:
  "mysql s = Some m \<Longrightarrow> sqlite s = Some c \<Longrightarrow>
   selected (trace (attempts E steps s)) = selected (trace s) @ names steps"
proof (induction steps arbitrary: s)
  case Nil
  then show ?case by simp
next
  case (Cons p steps)
  obtain label ts where p: "p = (label, ts)" by (cases p)
  have f: "mysql (attempt label (migrateTable E ts) s) = Some m"
          "sqlite (attempt label (migrateTable E ts) s) = Some c"
    using attempt_fields[OF Cons.prems] by simp_all
  show ?case
    using Cons.IH[OF f] attempt_selected[OF Cons.prems, of label E ts] by (simp add: p)
qed

lemma attempts_closes:
  "mysql s = Some m \<Longrightarrow> sqlite s = Some c \<Longrightarrow>
   closes (trace (attempts E steps s)) = closes (trace s)"
proof (induction steps arbitrary: s)
  case Nil
  then show ?case by simp
next
  case (Cons p steps)
  obtain label ts where p: "p = (label, ts)" by (cases p)
  have f: "mysql (attempt label (migrateTable E ts) s) = Some m"
          "sqlite (attempt label (migrateTable E ts) s) = Some c"
    using attempt_fields[OF Cons.prems] by simp_all
  show ?case
    using Cons.IH[OF f] attempt_closes[OF Cons.prems, of label E ts] by (simp add: p)
qed

lemma attempts_failures:
  "mysql s = Some m \<Longrightarrow> sqlite s = Some c \<Longrightarrow>
   failures (trace (attempts E steps s)) =
     failures (trace s) @ List.map_filter snd (outcomes E steps s)"
proof (induction steps arbitrary: s)
  case Nil
  then show ?case by simp
next
  case (Cons p steps)
  obtain label ts where p: "p = (label, ts)" by (cases p)
  have f: "mysql (attempt label (migrateTable E ts) s) = Some m"
          "sqlite (attempt label (migrateTable E ts) s) = Some c"
    using attempt_fields[OF Cons.prems] by simp_all
  show ?case
    using Cons.IH[OF f] attempt_failures[OF Cons.prems, of label E ts]
    by (simp add: p split: option.splits)
qed

lemma remdups_adj_replicate_mid:
  "remdups_adj (xs @ replicate (Suc k) t @ ys) = remdups_adj (xs @ t # ys)"
proof (induction k)
  case 0
  show ?case by simp
next
  case (Suc k)
  have "remdups_adj (xs @ t # (t # replicate k t @ ys)) =
          remdups_adj (xs @ [t]) @ tl (remdups_adj (t # t # replicate k t @ ys))"
    by (rule remdups_adj_append)
  also have "\<dots> = remdups_adj (xs @ [t]) @ tl (remdups_adj (t # replicate k t @ ys))"
    by simp
  also have "\<dots> = remdups_adj (xs @ t # (replicate k t @ ys))"
    by (rule remdups_adj_append[symmetric])
  finally show ?case using Suc by simp
qed

lemma attempts_touched:
  "mysql s = Some m \<Longrightarrow> sqlite s = Some c \<Longrightarrow>
   remdups_adj (tables_touched (trace (attempts E steps s))) =
     remdups_adj (tables_touched (trace s) @ names steps)"
proof (induction steps arbitrary: s)
  case Nil
  then show ?case by simp
next
  case (Cons p steps)
  obtain label ts where p: "p = (label, ts)" by (cases p)
  let ?s = "attempt label (migrateTable E ts) s"
  have f: "mysql ?s = Some m" "sqlite ?s = Some c"
    using attempt_fields[OF Cons.prems] by simp_all
  obtain k where k: "tables_touched (trace ?s) = tables_touched (trace s) @ replicate (Suc k) (tname ts)"
    using attempt_touched[OF Cons.prems] by blast
  have "remdups_adj (tables_touched (trace (attempts E (p # steps) s))) =
          remdups_adj ((tables_touched (trace s) @ replicate (Suc k) (tname ts)) @ names steps)"
    using Cons.IH[OF f] by (simp only: p attempts.simps k)
  also have "\<dots> = remdups_adj (tables_touched (trace s) @ replicate (Suc k) (tname ts) @ names steps)"
    by simp
  also have "\<dots> = remdups_adj (tables_touched (trace s) @ tname ts # names steps)"
    by (rule remdups_adj_replicate_mid)
  finally show ?case by (simp add: p)
qed

lemma attempts_frame:
  "mysql s = Some m \<Longrightarrow> sqlite s = Some c \<Longrightarrow> u \<notin> set (names steps) \<Longrightarrow>
   pending_free u (inflight s) \<Longrightarrow>
   dest (attempts E steps s) u = dest s u \<and> pending_free u (inflight (attempts E steps s))"
proof (induction steps arbitrary: s)
  case Nil
  then show ?case by simp
next
  case (Cons p steps)
  obtain label ts where p: "p = (label, ts)" by (cases p)
  let ?s = "attempt label (migrateTable E ts) s"
  have f: "mysql ?s = Some m" "sqlite ?s = Some c"
    using attempt_fields[OF Cons.prems(1,2)] by simp_all
  have u: "u \<noteq> tname ts" "u \<notin> set (names steps)" using Cons.prems(3) by (simp_all add: p)
  have "dest ?s u = dest s u \<and> pending_free u (inflight ?s)"
    using migrateTable_frame[of "info label s" m c u ts E] Cons.prems(1,2,4) u(1)
    by (simp add: attempt_dest)
  then show ?case using Cons.IH[OF f u(2)] by (simp add: p)
qed

lemma outcomes_names: "map fst (outcomes E steps s) = names steps"
  by (induction steps arbitrary: s) auto

text \<open>
  A routine that returned in a sequence of try blocks on distinct tables,
  started with nothing in flight on those tables: its table is as the
  routine left it.
\<close>

lemma attempts_success:
  "mysql s = Some m \<Longrightarrow> sqlite s = Some c \<Longrightarrow> distinct (names steps) \<Longrightarrow>
   \<forall>t\<in>set (names steps). pending_free t (inflight s) \<Longrightarrow>
   (label, ts) \<in> set steps \<Longrightarrow> (tname ts, None) \<in> set (outcomes E steps s) \<Longrightarrow>
   \<exists>rows. mysql_reply E (SelectAll (tname ts)) = Inr rows \<and>
     mset (dest (attempts E steps s) (tname ts)) = mset (map (stored_row ts) rows) \<and>
     pending_free (tname ts) (inflight (attempts E steps s))"
proof (induction steps arbitrary: s)
  case Nil
  then show ?case by simp
next
  case (Cons p steps)
  obtain l0 ts0 where p: "p = (l0, ts0)" by (cases p)
  let ?s = "attempt l0 (migrateTable E ts0) s"
  have f: "mysql ?s = Some m" "sqlite ?s = Some c"
    using attempt_fields[OF Cons.prems(1,2)] by simp_all
  have d: "tname ts0 \<notin> set (names steps)" "distinct (names steps)"
    using Cons.prems(3) by (simp_all add: p)
  have free0: "pending_free (tname ts0) (inflight s)"
    using Cons.prems(4) by (simp add: p)
  have free: "\<forall>t\<in>set (names steps). pending_free t (inflight ?s)"
  proof
    fix t assume t: "t \<in> set (names steps)"
    then have "t \<noteq> tname ts0" using d(1) by metis
    moreover have "pending_free t (inflight s)" using Cons.prems(4) t by (auto simp: p)
    ultimately show "pending_free t (inflight ?s)"
      using migrateTable_frame[of "info l0 s" m c t ts0 E] Cons.prems(1,2)
      by (simp add: attempt_dest)
  qed
  have tail_names: "t \<in> set (names steps)" if "(t, r) \<in> set (outcomes E steps ?s)" for t r
  proof -
    from that have "t \<in> fst ` set (outcomes E steps ?s)" by force
    then show ?thesis using outcomes_names[of E steps ?s] by (metis set_map)
  qed
  show ?case
  proof (cases "(label, ts) = (l0, ts0)")
    case True
    then have ts: "ts = ts0" by simp
    have "fst (migrateTable E ts0 (info l0 s)) = None"
      using Cons.prems(6) d(1) tail_names by (auto simp: p ts)
    then obtain rows where rows: "mysql_reply E (SelectAll (tname ts0)) = Inr rows"
      and m: "mset (dest (snd (migrateTable E ts0 (info l0 s))) (tname ts0)) =
               mset (map (stored_row ts0) rows)"
      and fr: "pending_free (tname ts0) (inflight (snd (migrateTable E ts0 (info l0 s))))"
      using migrateTable_success[of "info l0 s" m c E ts0] Cons.prems(1,2) free0 by auto
    have fr': "pending_free (tname ts0) (inflight ?s)"
      using fr by (simp add: attempt_dest)
    have "dest (attempts E steps ?s) (tname ts0) = dest ?s (tname ts0) \<and>
          pending_free (tname ts0) (inflight (attempts E steps ?s))"
      by (rule attempts_frame[OF f d(1) fr'])
    then show ?thesis using rows m by (auto simp: p ts attempt_dest)
  next
    case False
    then have in_rest: "(label, ts) \<in> set steps" using Cons.prems(5) by (auto simp: p)
    then have "tname ts \<in> set (names steps)" by force
    then have "tname ts \<noteq> tname ts0" using d(1) by metis
    then have "(tname ts, None) \<in> set (outcomes E steps ?s)"
      using Cons.prems(6) by (simp add: p)
    from Cons.IH[OF f d(2) free in_rest this] show ?thesis by (simp add: p)
  qed
qed

section \<open>Provisioning, validation and the shape of a run\<close>

lemma quiet_projections:
  assumes "\<forall>ev\<in>set evs. quiet_event ev"
  shows "selected evs = [] \<and> closes evs = [] \<and> failures evs = [] \<and> tables_touched evs = []"
  using assms
proof (induction evs)
  case Nil
  show ?case
    by (simp add: selected_def closes_def failures_def tables_touched_def)
next
  case (Cons ev evs)
  then have q: "quiet_event ev"
    and r: "selected evs = []" "closes evs = []" "failures evs = []" "tables_touched evs = []"
    by simp_all
  from q show ?case
    using r
    by (cases ev rule: quiet_event.cases)
       (simp_all add: selected_def closes_def failures_def tables_touched_def)
qed

lemma connectMysql_ok:
  "connect_error E (mysql_request config) = None \<Longrightarrow>
   connectMysql E (mysql_request config) s =
     (Some Mysql, emit (Open (mysql_request config)) (info ''Connecting to mysql...'' s))"
  by (simp add: connectMysql_def createConnection_def mysql_request_def)

lemma connectMysql_failed:
  "connect_error E req = Some e \<Longrightarrow>
   connectMysql E req s =
     (None, error ''Unable to connect.'' (Some e) (emit (Open req) (info ''Connecting to mysql...'' s)))"
  by (simp add: connectMysql_def createConnection_def)

lemma connectSqlite_ok:
  "connect_error E (sqlite_request config) = None \<Longrightarrow>
   connectSqlite E (sqlite_request config) s =
     (Some Sqlite, emit (Open (sqlite_request config)) (info ''Connecting to sqlite...'' s))"
  by (simp add: connectSqlite_def createConnection_def sqlite_request_def)

lemma connectSqlite_failed:
  "connect_error E req = Some e \<Longrightarrow>
   connectSqlite E req s =
     (None, error ''Unable to connect.'' (Some e) (emit (Open req) (info ''Connecting to sqlite...'' s)))"
  by (simp add: connectSqlite_def createConnection_def)

lemma provisioned_ok:
  assumes "connect_error E (mysql_request config) = None"
    and "connect_error E (sqlite_request config) = None"
  shows "mysql (provisioned E config s0) = Some Mysql"
    and "sqlite (provisioned E config s0) = Some Sqlite"
    and "dest (provisioned E config s0) = dest s0"
    and "inflight (provisioned E config s0) = inflight s0"
    and "trace (provisioned E config s0) =
           trace s0 @ [Info ''Connecting to mysql...'', Open (mysql_request config),
                       Info ''Connecting to sqlite...'', Open (sqlite_request config)]"
  using assms by (simp_all add: provisioned_def Let_def connectMysql_ok connectSqlite_ok)

lemma checkTables_effect:
  assumes "mysql s = Some m" and "sqlite s = Some c"
  shows "mysql (snd (checkTables E s)) = Some m \<and> sqlite (snd (checkTables E s)) = Some c \<and>
         dest (snd (checkTables E s)) = dest s \<and>
         inflight (snd (checkTables E s)) = inflight s \<and>
         (\<exists>evs. trace (snd (checkTables E s)) = trace s @ evs \<and> (\<forall>ev\<in>set evs. quiet_event ev))"
  using assms
  by (cases "mysql_reply E ShowTables"; cases "sqlite_master_reply E")
     (simp_all add: checkTables_def mysql_query_def sqlite_query_def Let_def)

lemma migration_start_effect:
  assumes "connect_error E (mysql_request config) = None"
    and "connect_error E (sqlite_request config) = None"
  shows "mysql (migration_start E config s0) = Some Mysql"
    and "sqlite (migration_start E config s0) = Some Sqlite"
    and "dest (migration_start E config s0) = dest s0"
    and "\<exists>evs. trace (migration_start E config s0) = trace s0 @ evs \<and> (\<forall>ev\<in>set evs. quiet_event ev)"
    and "inflight (migration_start E config s0) = inflight s0"
proof -
  let ?p = "provisioned E config s0"
  note p = provisioned_ok[OF assms, of s0]
  note c = checkTables_effect[OF p(1) p(2), of E]
  show "mysql (migration_start E config s0) = Some Mysql"
    using c by (simp add: migration_start_def Let_def)
  show "sqlite (migration_start E config s0) = Some Sqlite"
    using c by (simp add: migration_start_def Let_def)
  show "dest (migration_start E config s0) = dest s0"
    using c p(3) by (simp add: migration_start_def Let_def)
  show "inflight (migration_start E config s0) = inflight s0"
    using c p(4) by (simp add: migration_start_def Let_def)
  from c obtain evs where evs: "trace (snd (checkTables E ?p)) = trace ?p @ evs"
    and q: "\<forall>ev\<in>set evs. quiet_event ev" by blast
  show "\<exists>evs. trace (migration_start E config s0) = trace s0 @ evs \<and> (\<forall>ev\<in>set evs. quiet_event ev)"
  proof (cases "fst (checkTables E ?p)")
    case True
    have "trace (migration_start E config s0) =
            trace s0 @ ([Info ''Connecting to mysql...'', Open (mysql_request config),
                       Info ''Connecting to sqlite...'', Open (sqlite_request config)] @ evs)"
      using True evs p(5) by (simp add: migration_start_def Let_def)
    moreover have "\<forall>ev\<in>set ([Info ''Connecting to mysql...'', Open (mysql_request config),
                       Info ''Connecting to sqlite...'', Open (sqlite_request config)] @ evs). quiet_event ev"
      using q by simp
    ultimately show ?thesis by blast
  next
    case False
    have "trace (migration_start E config s0) =
            trace s0 @ ([Info ''Connecting to mysql...'', Open (mysql_request config),
                       Info ''Connecting to sqlite...'', Open (sqlite_request config)] @ evs @
                       [Error ''Databases not ok. Terminating.'' None])"
      using False evs p(5) by (simp add: migration_start_def Let_def)
    moreover have "\<forall>ev\<in>set ([Info ''Connecting to mysql...'', Open (mysql_request config),
                       Info ''Connecting to sqlite...'', Open (sqlite_request config)] @ evs @
                       [Error ''Databases not ok. Terminating.'' None]). quiet_event ev"
      using q by simp
    ultimately show ?thesis by blast
  qed
qed

lemma attempts_migration_order:
  "attempts E migration_order s =
     attempt ''migrating UserInfos...'' (migrateUserInfos E)
      (attempt ''migrating Slog...'' (migrateSlog E)
       (attempt ''migrating Meta...'' (migrateMeta E)
        (attempt ''migrating GroupMembers...'' (migrateGroupMembers E)
         (attempt ''migrating Config...'' (migrateConfig E)
          (attempt ''migrating ChannelLinks...'' (migrateChannelLinks E)
           (attempt ''migrating ChannelInfo...'' (migrateChannelInfo E)
            (attempt ''migrating Bans...'' (migrateBans E)
             (attempt ''migrating Acl...'' (migrateAcl E)
              (attempt ''migrating Groups...'' (migrateGroups E)
               (attempt ''migrating Users...'' (migrateUsers E)
                (attempt ''migrating Channels...'' (migrateChannels E)
                 (attempt ''migrating Servers...'' (migrateServers E) s))))))))))))"
  unfolding migration_order_def attempts.simps
    migrateAcl_def migrateBans_def migrateChannelInfo_def migrateChannelLinks_def
    migrateChannels_def migrateConfig_def migrateGroupMembers_def migrateGroups_def
    migrateMeta_def migrateServers_def migrateSlog_def migrateUserInfos_def migrateUsers_def
  by (rule refl)

lemma execute_run:
  assumes "connect_error E (mysql_request config) = None"
    and "connect_error E (sqlite_request config) = None"
  shows "execute E config s0 = closing E (attempts E migration_order (migration_start E config s0))"
proof -
  note ms = migration_start_effect[OF assms, of s0]
  note af = attempts_fields[OF ms(1) ms(2), of E migration_order]
  have p: "provisioned E config s0 =
        (emit (Open (sqlite_request config)) (info ''Connecting to sqlite...''
          ((emit (Open (mysql_request config)) (info ''Connecting to mysql...'' s0))
             \<lparr>mysql := Some Mysql\<rparr>)))\<lparr>sqlite := Some Sqlite\<rparr>"
    using assms by (simp add: provisioned_def Let_def connectMysql_ok connectSqlite_ok)
  have m1: "connectMysql E (MysqlOptions (host config) (password config) (username config)
              (database config) (port config)) s0 =
            (Some Mysql, emit (Open (mysql_request config)) (info ''Connecting to mysql...'' s0))"
    using connectMysql_ok[OF assms(1), of s0] by (simp add: mysql_request_def)
  have m2: "connectSqlite E (SqliteOptions (filename config)) s =
            (Some Sqlite, emit (Open (sqlite_request config)) (info ''Connecting to sqlite...'' s))" for s
    using connectSqlite_ok[OF assms(2), of s] by (simp add: sqlite_request_def)
  have "execute E config s0 =
          (case close_connection E (sqlite (attempts E migration_order (migration_start E config s0)))
                  (info ''Closing sqlite...'' (attempts E migration_order (migration_start E config s0))) of
                (Some e, s20) \<Rightarrow> (Some e, s20)
              | (None, s20) \<Rightarrow>
                  (case close_connection E (mysql s20) (info ''Closing mysql...'' s20) of
                     (Some e, s21) \<Rightarrow> (Some e, s21)
                   | (None, s21) \<Rightarrow> (None, info ''Good bye'' s21)))"
    unfolding execute_def m1 attempts_migration_order migration_start_def p
    by (simp add: m2 Let_def split_def)
  also have "\<dots> = closing E (attempts E migration_order (migration_start E config s0))"
    using af
    by (cases "close_error E Sqlite")
       (simp_all add: close_connection_def closing_def Let_def drain_fields)
  finally show ?thesis .
qed

text \<open>The closing lines: what \<open>execute\<close> ends with, what is logged, what is left alone.\<close>

lemma closing_result [simp]: "fst (closing E s) = closing_result E"
  by (cases "close_error E Sqlite"; cases "close_error E Mysql")
     (simp_all add: closing_def close_connection_def closing_result_def Let_def)

lemma closing_trace: "trace (snd (closing E s)) = trace s @ closing_events E"
  by (cases "close_error E Sqlite"; cases "close_error E Mysql")
     (simp_all add: closing_def close_connection_def closing_events_def Let_def drain_fields)

lemma closing_dest:
  "pending_free u (inflight s) \<Longrightarrow> dest (snd (closing E s)) u = dest s u"
  by (cases "close_error E Sqlite"; cases "close_error E Mysql")
     (simp_all add: closing_def close_connection_def Let_def drain_other_table)

section \<open>What validation returns and reports\<close>

lemma without_empty_iff: "without xs ys = [] \<longleftrightarrow> set ys \<subseteq> set xs"
  by (auto simp: without_def filter_empty_conv)

lemma checkTables_iff:
  assumes "mysql s = Some m" and "sqlite s = Some c"
  shows "(fst (checkTables E s) \<longleftrightarrow>
           (\<exists>ms qs. mysql_reply E ShowTables = Inr ms \<and> sqlite_master_reply E = Inr qs \<and>
              set expectedTables \<subseteq> set (map (\<lambda>row. first_elem (values_of row)) ms) \<and>
              set expectedTables \<subseteq> set (map (\<lambda>row. field row ''name'') qs))) \<and>
         (\<forall>e. mysql_reply E ShowTables = Inl e \<or> sqlite_master_reply E = Inl e
              \<longrightarrow> \<not> fst (checkTables E s))"
  using assms
  by (cases "mysql_reply E ShowTables"; cases "sqlite_master_reply E")
     (simp_all add: checkTables_def mysql_query_def sqlite_query_def
        without_empty_iff Let_def del: set_map)

text \<open>
  Claim C4. On two opened connections, \<open>checkTables\<close> returns true exactly when
  both catalogue queries succeed and each catalogue contains all thirteen
  names acl, bans, channel_info, channel_links, channels, config,
  group_members, groups, meta, servers, slog, user_info and users; the
  source catalogue is read through the first column of each row, the
  destination catalogue through the column \<open>name\<close>. Since only containment is
  asked, further catalogue entries never turn the result false. If either
  catalogue query fails, the result is false.
\<close>

theorem checkTables_both_complete:
  assumes "mysql s = Some m" and "sqlite s = Some c"
  shows "(fst (checkTables E s) \<longleftrightarrow>
           (\<exists>ms qs. mysql_reply E ShowTables = Inr ms \<and> sqlite_master_reply E = Inr qs \<and>
              set (map Str [''acl'', ''bans'', ''channel_info'', ''channel_links'', ''channels'',
                     ''config'', ''group_members'', ''groups'', ''meta'', ''servers'', ''slog'',
                     ''user_info'', ''users''])
                \<subseteq> set (map (\<lambda>row. first_elem (values_of row)) ms) \<and>
              set (map Str [''acl'', ''bans'', ''channel_info'', ''channel_links'', ''channels'',
                     ''config'', ''group_members'', ''groups'', ''meta'', ''servers'', ''slog'',
                     ''user_info'', ''users''])
                \<subseteq> set (map (\<lambda>row. field row ''name'') qs))) \<and>
         (\<forall>e. mysql_reply E ShowTables = Inl e \<or> sqlite_master_reply E = Inl e
              \<longrightarrow> \<not> fst (checkTables E s))"
  using checkTables_iff[OF assms, of E] unfolding expectedTables_def .

lemma demo_catalogs:
  "set expectedTables \<subseteq> set (map (\<lambda>row. first_elem (values_of row)) demo_show_tables)"
  "set expectedTables \<subseteq> set (map (\<lambda>row. field row ''name'') demo_sqlite_master)"
  by (simp_all add: expectedTables_def demo_show_tables_def demo_sqlite_master_def demo_tables_def
        first_elem_def values_of_def field_def)

text \<open>
  The example installation lists all thirteen tables on both sides, and one
  more table in the destination; validation succeeds.
\<close>

theorem checkTables_both_complete_witness:
  "fst (checkTables demo_env demo_connected)"
proof -
  have c: "mysql demo_connected = Some Mysql" "sqlite demo_connected = Some Sqlite"
    by (simp_all add: demo_connected_def)
  have r: "mysql_reply demo_env ShowTables = Inr demo_show_tables"
          "sqlite_master_reply demo_env = Inr demo_sqlite_master"
    by (simp_all add: demo_env_def demo_source_def)
  from checkTables_both_complete[OF c, of demo_env]
  show ?thesis
    unfolding r expectedTables_def[symmetric] using demo_catalogs by blast
qed

lemma partial_missing:
  "without (map (\<lambda>row. first_elem (values_of row))
      (filter (\<lambda>r. r \<noteq> [(''Tables_in_mumble'', Str ''users'')]) demo_show_tables)) expectedTables = [Str ''users'']"
  "without (map (\<lambda>row. field row ''name'')
      (filter (\<lambda>r. r \<noteq> [(''name'', Str ''acl'')]) demo_sqlite_master)) expectedTables = [Str ''acl'']"
  by (simp_all add: expectedTables_def demo_show_tables_def demo_sqlite_master_def demo_tables_def
        first_elem_def values_of_def field_def without_def)

text \<open>
  Claim C5 as stated fails. With \<open>users\<close> missing from the source and \<open>acl\<close>
  missing from the destination, both missing sets are non-empty, yet the
  only line logged names the source's missing table: \<open>checkTables\<close> returns
  before it looks at the destination catalogue.
\<close>

theorem checkTables_reports_one_side_only:
  "without (map (\<lambda>row. field row ''name'') (projr (sqlite_master_reply partial_env))) expectedTables
     = [Str ''acl''] \<and>
   checkTables partial_env demo_connected =
     (False, demo_connected\<lparr>trace :=
        [Query Mysql ShowTables, Query Sqlite SqliteMaster,
         Error ''Mysql is missing the following tables: users'' None]\<rparr>) \<and>
   Error ''Sqlite is missing the following tables: acl'' None
     \<notin> set (trace (snd (checkTables partial_env demo_connected)))"
  by (simp add: checkTables_def mysql_query_def sqlite_query_def partial_env_def demo_env_def
        demo_connected_def partial_missing Let_def error_def emit_def join_elem_def to_string_def)

lemma checkTables_connected:
  assumes "mysql s = Some m" and "sqlite s = Some c"
    and "mysql_reply E ShowTables = Inr ms" and "sqlite_master_reply E = Inr qs"
  shows "checkTables E s =
      (if without (map (\<lambda>row. first_elem (values_of row)) ms) expectedTables \<noteq> []
       then (False, error (''Mysql is missing the following tables: '' @
                      join '', '' (without (map (\<lambda>row. first_elem (values_of row)) ms) expectedTables))
                      None (emit (Query c SqliteMaster) (emit (Query m ShowTables) s)))
       else if without (map (\<lambda>row. field row ''name'') qs) expectedTables \<noteq> []
       then (False, error (''Sqlite is missing the following tables: '' @
                      join '', '' (without (map (\<lambda>row. field row ''name'') qs) expectedTables))
                      None (emit (Query c SqliteMaster) (emit (Query m ShowTables) s)))
       else (True, emit (Query c SqliteMaster) (emit (Query m ShowTables) s)))"
  using assms by (simp add: checkTables_def mysql_query_def sqlite_query_def Let_def)

lemma set_without: "set (without xs ys) = set ys - set xs"
  by (auto simp: without_def)

text \<open>
  Claim C5, amended. When both catalogue queries succeed, each missing list
  is the expected names absent from that side's catalogue, in the order of
  \<open>expectedTables\<close>. If the source misses some name, \<open>checkTables\<close> logs
  exactly the source's missing names and returns false, whatever the
  destination lacks; the destination's missing names are logged, exactly,
  when the source is complete and the destination is not, and the result is
  false again.
\<close>

theorem checkTables_reports_first_incomplete_side:
  assumes "mysql s = Some m" and "sqlite s = Some c"
    and "mysql_reply E ShowTables = Inr ms" and "sqlite_master_reply E = Inr qs"
    and "missingMysql = without (map (\<lambda>row. first_elem (values_of row)) ms) expectedTables"
    and "missingSqlite = without (map (\<lambda>row. field row ''name'') qs) expectedTables"
  shows "set missingMysql = set expectedTables - set (map (\<lambda>row. first_elem (values_of row)) ms) \<and>
         set missingSqlite = set expectedTables - set (map (\<lambda>row. field row ''name'') qs) \<and>
         (missingMysql \<noteq> [] \<longrightarrow>
            checkTables E s =
              (False, error (''Mysql is missing the following tables: '' @ join '', '' missingMysql) None
                        (emit (Query c SqliteMaster) (emit (Query m ShowTables) s)))) \<and>
         (missingMysql = [] \<and> missingSqlite \<noteq> [] \<longrightarrow>
            checkTables E s =
              (False, error (''Sqlite is missing the following tables: '' @ join '', '' missingSqlite) None
                        (emit (Query c SqliteMaster) (emit (Query m ShowTables) s))))"
  unfolding assms(5,6) checkTables_connected[OF assms(1-4)] set_without by simp

theorem checkTables_reports_first_incomplete_side_witness:
  "checkTables partial_env demo_connected =
     (False, error ''Mysql is missing the following tables: users'' None
               (emit (Query Sqlite SqliteMaster) (emit (Query Mysql ShowTables) demo_connected)))"
proof -
  have c: "mysql demo_connected = Some Mysql" "sqlite demo_connected = Some Sqlite"
    by (simp_all add: demo_connected_def)
  have r: "mysql_reply partial_env ShowTables =
             Inr (filter (\<lambda>r. r \<noteq> [(''Tables_in_mumble'', Str ''users'')]) demo_show_tables)"
          "sqlite_master_reply partial_env =
             Inr (filter (\<lambda>r. r \<noteq> [(''name'', Str ''acl'')]) demo_sqlite_master)"
    by (simp_all add: partial_env_def demo_env_def)
  from checkTables_reports_first_incomplete_side[OF c r refl refl]
  show ?thesis by (simp add: partial_missing join_elem_def to_string_def)
qed

section \<open>Runs that stop at provisioning\<close>

lemma execute_provisioned:
  "execute E config s0 =
     (if mysql (provisioned E config s0) = None \<or> sqlite (provisioned E config s0) = None
      then (None, error ''One database couldn't be connected. Terminating.'' None
                    (provisioned E config s0))
      else execute E config s0)"
  unfolding execute_def provisioned_def mysql_request_def sqlite_request_def
  by (simp add: Let_def split_def)

lemma execute_not_provisioned:
  assumes "connect_error E (mysql_request config) \<noteq> None \<or>
           connect_error E (sqlite_request config) \<noteq> None"
  shows "execute E config s0 =
           (None, error ''One database couldn't be connected. Terminating.'' None
                    (provisioned E config s0))"
proof -
  have "mysql (provisioned E config s0) = None \<or> sqlite (provisioned E config s0) = None"
    using assms
    by (cases "connect_error E (mysql_request config)"; cases "connect_error E (sqlite_request config)")
       (simp_all add: provisioned_def Let_def connectMysql_ok connectSqlite_ok
          connectMysql_failed connectSqlite_failed)
  then show ?thesis by (subst execute_provisioned) simp
qed

lemma provisioned_trace:
  "trace (provisioned E config s0) =
     trace s0 @ [Info ''Connecting to mysql...'', Open (mysql_request config)] @
       (case connect_error E (mysql_request config) of
          None \<Rightarrow> [] | Some e \<Rightarrow> [Error ''Unable to connect.'' (Some e)]) @
       [Info ''Connecting to sqlite...'', Open (sqlite_request config)] @
       (case connect_error E (sqlite_request config) of
          None \<Rightarrow> [] | Some e \<Rightarrow> [Error ''Unable to connect.'' (Some e)])"
  by (cases "connect_error E (mysql_request config)"; cases "connect_error E (sqlite_request config)")
     (simp_all add: provisioned_def Let_def connectMysql_ok connectSqlite_ok
        connectMysql_failed connectSqlite_failed)

lemma provisioned_fields:
  "mysql (provisioned E config s0) =
     (case connect_error E (mysql_request config) of None \<Rightarrow> Some Mysql | Some e \<Rightarrow> None)"
  "sqlite (provisioned E config s0) =
     (case connect_error E (sqlite_request config) of None \<Rightarrow> Some Sqlite | Some e \<Rightarrow> None)"
  "dest (provisioned E config s0) = dest s0"
  by (cases "connect_error E (mysql_request config)"; cases "connect_error E (sqlite_request config)";
      simp add: provisioned_def Let_def connectMysql_ok connectSqlite_ok
        connectMysql_failed connectSqlite_failed)+

text \<open>
  Claim C6. If either connection fails to open, the provisioner logs the
  failure and leaves the field without a connection, \<open>execute\<close> returns
  rather than raises, both attempts are made and each failure is logged in
  turn, the run ends with the line about the database that could not be
  connected, no statement is sent on either connection and the destination
  tables are as before.
\<close>

theorem provisioning_failure_stops_run:
  assumes "connect_error E (mysql_request config) \<noteq> None \<or>
           connect_error E (sqlite_request config) \<noteq> None"
  shows "fst (execute E config (fresh d0)) = None \<and>
         mysql (snd (execute E config (fresh d0))) =
           (case connect_error E (mysql_request config) of None \<Rightarrow> Some Mysql | Some e \<Rightarrow> None) \<and>
         sqlite (snd (execute E config (fresh d0))) =
           (case connect_error E (sqlite_request config) of None \<Rightarrow> Some Sqlite | Some e \<Rightarrow> None) \<and>
         trace (snd (execute E config (fresh d0))) =
           [Info ''Connecting to mysql...'', Open (mysql_request config)] @
           (case connect_error E (mysql_request config) of
              None \<Rightarrow> [] | Some e \<Rightarrow> [Error ''Unable to connect.'' (Some e)]) @
           [Info ''Connecting to sqlite...'', Open (sqlite_request config)] @
           (case connect_error E (sqlite_request config) of
              None \<Rightarrow> [] | Some e \<Rightarrow> [Error ''Unable to connect.'' (Some e)]) @
           [Error ''One database couldn't be connected. Terminating.'' None] \<and>
         (\<forall>c q. Query c q \<notin> set (trace (snd (execute E config (fresh d0))))) \<and>
         dest (snd (execute E config (fresh d0))) = d0"
  unfolding execute_not_provisioned[OF assms]
  by (simp add: provisioned_trace provisioned_fields fresh_def split: option.splits)

theorem provisioning_failure_stops_run_witness:
  "trace (snd (execute (demo_env\<lparr>connect_error := (\<lambda>r. Some ''ECONNREFUSED'')\<rparr>)
                 demo_options (fresh demo_stale))) =
     [Info ''Connecting to mysql...'', Open (mysql_request demo_options),
      Error ''Unable to connect.'' (Some ''ECONNREFUSED''),
      Info ''Connecting to sqlite...'', Open (sqlite_request demo_options),
      Error ''Unable to connect.'' (Some ''ECONNREFUSED''),
      Error ''One database couldn't be connected. Terminating.'' None]"
  using provisioning_failure_stops_run[of "demo_env\<lparr>connect_error := (\<lambda>r. Some ''ECONNREFUSED'')\<rparr>"
          demo_options demo_stale]
  by simp

text \<open>
  Claim C10. If exactly one of the two connections opens, \<open>execute\<close> returns
  right after the line about the database that could not be connected; the
  field of the opened connection holds it, and no close call is ever made.
\<close>

theorem single_open_connection_left_open:
  assumes "(connect_error E (mysql_request config) = None) \<noteq>
           (connect_error E (sqlite_request config) = None)"
  shows "fst (execute E config (fresh d0)) = None \<and>
         closes (trace (snd (execute E config (fresh d0)))) = [] \<and>
         last (trace (snd (execute E config (fresh d0)))) =
           Error ''One database couldn't be connected. Terminating.'' None \<and>
         (if connect_error E (mysql_request config) = None
          then mysql (snd (execute E config (fresh d0))) = Some Mysql \<and>
               sqlite (snd (execute E config (fresh d0))) = None
          else mysql (snd (execute E config (fresh d0))) = None \<and>
               sqlite (snd (execute E config (fresh d0))) = Some Sqlite)"
proof -
  have f: "connect_error E (mysql_request config) \<noteq> None \<or>
           connect_error E (sqlite_request config) \<noteq> None"
    using assms by auto
  show ?thesis
    unfolding execute_not_provisioned[OF f] using assms
    by (auto simp: provisioned_trace provisioned_fields fresh_def closes_def
          map_filter_append split: option.splits)
qed

theorem single_open_connection_left_open_witness:
  "mysql (snd (execute (demo_env\<lparr>connect_error :=
                  (\<lambda>r. if r = sqlite_request demo_options then Some ''SQLITE_CANTOPEN'' else None)\<rparr>)
                 demo_options (fresh demo_stale))) = Some Mysql \<and>
   closes (trace (snd (execute (demo_env\<lparr>connect_error :=
                  (\<lambda>r. if r = sqlite_request demo_options then Some ''SQLITE_CANTOPEN'' else None)\<rparr>)
                 demo_options (fresh demo_stale)))) = []"
  using single_open_connection_left_open[of "demo_env\<lparr>connect_error :=
                  (\<lambda>r. if r = sqlite_request demo_options then Some ''SQLITE_CANTOPEN'' else None)\<rparr>"
          demo_options demo_stale]
  by (simp add: mysql_request_def sqlite_request_def)

section \<open>Whole runs\<close>

lemma names_migration_order: "names migration_order = table_order"
  by (simp add: migration_order_def table_order_def servers_table_def channels_table_def
        users_table_def groups_table_def acl_table_def bans_table_def channel_info_table_def
        channel_links_table_def config_table_def group_members_table_def meta_table_def
        slog_table_def user_info_table_def)

lemma remdups_adj_table_order: "remdups_adj table_order = table_order"
  by (simp add: table_order_def)

lemma distinct_table_order: "distinct table_order"
  by (simp add: table_order_def)

lemma closing_events_projections:
  "selected (closing_events E) = []"
  "tables_touched (closing_events E) = []"
  "failures (closing_events E) = []"
  "closes (closing_events E) = (if close_error E Sqlite = None then [Sqlite, Mysql] else [Sqlite])"
  by (cases "close_error E Sqlite"; cases "close_error E Mysql";
      simp add: closing_events_def selected_def tables_touched_def failures_def closes_def)+

lemma closing_projections:
  "selected (trace (snd (closing E s))) = selected (trace s)"
  "tables_touched (trace (snd (closing E s))) = tables_touched (trace s)"
  "failures (trace (snd (closing E s))) = failures (trace s)"
  "closes (trace (snd (closing E s))) =
     closes (trace s) @ (if close_error E Sqlite = None then [Sqlite, Mysql] else [Sqlite])"
  using closing_events_projections[of E]
  by (simp_all add: closing_trace selected_def tables_touched_def failures_def closes_def
        map_filter_append)

text \<open>The whole run, read through each projection.\<close>

lemma run_projections:
  assumes "connect_error E (mysql_request config) = None"
    and "connect_error E (sqlite_request config) = None"
  shows "selected (trace (snd (execute E config (fresh d0)))) = table_order"
    and "remdups_adj (tables_touched (trace (snd (execute E config (fresh d0))))) = table_order"
    and "closes (trace (snd (execute E config (fresh d0)))) =
           (if close_error E Sqlite = None then [Sqlite, Mysql] else [Sqlite])"
    and "failures (trace (snd (execute E config (fresh d0)))) =
           List.map_filter snd (outcomes E migration_order (migration_start E config (fresh d0)))"
proof -
  let ?s = "migration_start E config (fresh d0)"
  note ms = migration_start_effect[OF assms, of "fresh d0"]
  from ms(4) obtain evs where "trace ?s = evs" and "\<forall>ev\<in>set evs. quiet_event ev"
    by (auto simp: fresh_def)
  then have q: "selected (trace ?s) = []" "closes (trace ?s) = []" "failures (trace ?s) = []"
      "tables_touched (trace ?s) = []"
    using quiet_projections[of evs] by simp_all
  show "selected (trace (snd (execute E config (fresh d0)))) = table_order"
    by (simp add: execute_run[OF assms] closing_projections attempts_selected[OF ms(1,2)] q
          names_migration_order)
  show "remdups_adj (tables_touched (trace (snd (execute E config (fresh d0))))) = table_order"
    by (simp add: execute_run[OF assms] closing_projections attempts_touched[OF ms(1,2)] q
          names_migration_order remdups_adj_table_order)
  show "closes (trace (snd (execute E config (fresh d0)))) =
           (if close_error E Sqlite = None then [Sqlite, Mysql] else [Sqlite])"
    by (simp add: execute_run[OF assms] closing_projections attempts_closes[OF ms(1,2)] q)
  show "failures (trace (snd (execute E config (fresh d0)))) =
           List.map_filter snd (outcomes E migration_order ?s)"
    by (simp add: execute_run[OF assms] closing_projections attempts_failures[OF ms(1,2)] q)
qed

lemma is_verdict_verdict [simp]: "is_verdict (verdict r)"
  by (cases r) (simp_all add: verdict_def)

lemma attempt_block:
  assumes "mysql s = Some m" and "sqlite s = Some c"
  shows "\<exists>b. trace (attempt label (migrateTable E ts) s) = trace s @ b \<and> try_block m (label, ts) b"
proof -
  obtain evs where w: "\<forall>ev\<in>set evs. write_event (tname ts) ev"
    and t: "trace (attempt label (migrateTable E ts) s) =
             trace s @ [Info label, Query m (SelectAll (tname ts))] @ evs @
               [verdict (fst (migrateTable E ts (info label s)))]"
    using attempt_trace[OF assms] by blast
  have "try_block m (label, ts)
          ([Info label, Query m (SelectAll (tname ts))] @ evs @
               [verdict (fst (migrateTable E ts (info label s)))])"
    using w by (simp add: list_all_iff)
  then show ?thesis using t by blast
qed

lemma attempts_blocks:
  "mysql s = Some m \<Longrightarrow> sqlite s = Some c \<Longrightarrow>
   \<exists>bs. trace (attempts E steps s) = trace s @ concat bs \<and> list_all2 (try_block m) steps bs"
proof (induction steps arbitrary: s)
  case Nil
  then show ?case by simp
next
  case (Cons p steps)
  obtain label ts where p: "p = (label, ts)" by (cases p)
  let ?s = "attempt label (migrateTable E ts) s"
  have f: "mysql ?s = Some m" "sqlite ?s = Some c"
    using attempt_fields[OF Cons.prems] by simp_all
  obtain b where b: "trace ?s = trace s @ b" "try_block m (label, ts) b"
    using attempt_block[OF Cons.prems] by blast
  obtain bs where bs: "trace (attempts E steps ?s) = trace ?s @ concat bs"
      "list_all2 (try_block m) steps bs"
    using Cons.IH[OF f] by blast
  have "trace (attempts E (p # steps) s) = trace s @ concat (b # bs)"
    by (simp add: p bs(1) b(1))
  moreover have "list_all2 (try_block m) (p # steps) (b # bs)"
    using b(2) bs(2) by (simp add: p)
  ultimately show ?case by blast
qed

lemma run_blocks:
  assumes "connect_error E (mysql_request config) = None"
    and "connect_error E (sqlite_request config) = None"
  shows "\<exists>start blocks.
           trace (snd (execute E config (fresh d0))) = start @ concat blocks @ closing_events E \<and>
           tables_touched start = [] \<and>
           list_all2 (try_block Mysql) migration_order blocks"
proof -
  let ?s = "migration_start E config (fresh d0)"
  note ms = migration_start_effect[OF assms, of "fresh d0"]
  from ms(4) obtain evs where "trace ?s = evs" and "\<forall>ev\<in>set evs. quiet_event ev"
    by (auto simp: fresh_def)
  then have q: "tables_touched (trace ?s) = []"
    using quiet_projections[of evs] by simp
  obtain bs where bs: "trace (attempts E migration_order ?s) = trace ?s @ concat bs"
      "list_all2 (try_block Mysql) migration_order bs"
    using attempts_blocks[OF ms(1,2)] by blast
  have "trace (snd (execute E config (fresh d0))) = trace ?s @ concat bs @ closing_events E"
    by (simp add: execute_run[OF assms] closing_trace bs(1))
  then show ?thesis using q bs(2) by blast
qed

text \<open>
  Claim C3. In every run in which both connections open, the tables are read
  from the source in the fixed order servers, channels, users, groups, acl,
  bans, channel_info, channel_links, config, group_members, meta, slog,
  user_info, and the statements of the run touch the tables in blocks in
  that same order: once a statement on the next table has been issued, none
  is issued on an earlier table. Between validation and the closing lines
  (which stop at a close that fails) the run is thirteen try blocks, one
  after the other in the order of \<open>migration_order\<close>: each starts with its
  label and its select and ends with the line that says its routine returned
  ("Done.") or failed ("Error."), before the next block's label.
\<close>

theorem migrations_in_fixed_order:
  assumes "connect_error E (mysql_request config) = None"
    and "connect_error E (sqlite_request config) = None"
  shows "selected (trace (snd (execute E config (fresh d0)))) =
           [''servers'', ''channels'', ''users'', ''groups'', ''acl'', ''bans'', ''channel_info'',
            ''channel_links'', ''config'', ''group_members'', ''meta'', ''slog'', ''user_info''] \<and>
         remdups_adj (tables_touched (trace (snd (execute E config (fresh d0))))) =
           [''servers'', ''channels'', ''users'', ''groups'', ''acl'', ''bans'', ''channel_info'',
            ''channel_links'', ''config'', ''group_members'', ''meta'', ''slog'', ''user_info''] \<and>
         (\<exists>start blocks.
            trace (snd (execute E config (fresh d0))) =
              start @ concat blocks @
                [Info ''Closing sqlite...'', Close Sqlite] @
                (case close_error E Sqlite of
                   Some e \<Rightarrow> []
                 | None \<Rightarrow>
                     [Info ''Closing mysql...'', Close Mysql] @
                     (case close_error E Mysql of Some e \<Rightarrow> [] | None \<Rightarrow> [Info ''Good bye''])) \<and>
            tables_touched start = [] \<and>
            list_all2 (try_block Mysql) migration_order blocks)"
  using run_projections(1,2)[OF assms, of d0] run_blocks[OF assms, of d0]
  unfolding closing_events_def by (simp add: table_order_def)

lemma demo_connects:
  "connect_error demo_env (mysql_request demo_options) = None"
  "connect_error demo_env (sqlite_request demo_options) = None"
  by (simp_all add: demo_env_def)

theorem migrations_in_fixed_order_witness:
  "selected (trace (snd (execute demo_env demo_options (fresh demo_stale)))) =
     [''servers'', ''channels'', ''users'', ''groups'', ''acl'', ''bans'', ''channel_info'',
      ''channel_links'', ''config'', ''group_members'', ''meta'', ''slog'', ''user_info'']"
  using migrations_in_fixed_order[OF demo_connects, of demo_stale] by simp

text \<open>
  Claim C2 as stated fails: the two close calls are not guarded. With a
  destination connection that fails to close, \<open>execute\<close> fails with that
  error right after the call, and close is never called on the source
  connection.
\<close>

theorem failed_close_skips_source_close:
  "fst (execute stuck_env demo_options (fresh demo_stale)) = Some ''SQLITE_BUSY'' \<and>
   closes (trace (snd (execute stuck_env demo_options (fresh demo_stale)))) = [Sqlite] \<and>
   last (trace (snd (execute stuck_env demo_options (fresh demo_stale)))) = Close Sqlite"
proof -
  have c: "connect_error stuck_env (mysql_request demo_options) = None"
          "connect_error stuck_env (sqlite_request demo_options) = None"
    by (simp_all add: stuck_env_def demo_env_def)
  have e: "close_error stuck_env Sqlite = Some ''SQLITE_BUSY''"
    by (simp add: stuck_env_def)
  show ?thesis
    using run_projections(3)[OF c, of demo_stale]
    by (simp add: e execute_run[OF c] closing_result_def closing_trace closing_events_def)
qed

text \<open>
  Claim C2, amended. In every run in which both connections open, whatever
  the outcomes of the thirteen routines are: every routine is attempted, in
  order; the error lines of the try blocks are exactly the failures of the
  routines, in order; then close is called on the destination connection,
  exactly once. If that close completes, close is called on the source
  connection, exactly once, and \<open>execute\<close> returns unless this second close
  fails. If the destination close fails, \<open>execute\<close> fails with its error and
  close is never called on the source connection.
\<close>

theorem failures_isolated_connections_closed:
  assumes "connect_error E (mysql_request config) = None"
    and "connect_error E (sqlite_request config) = None"
  shows "map fst (outcomes E migration_order (migration_start E config (fresh d0))) =
           [''servers'', ''channels'', ''users'', ''groups'', ''acl'', ''bans'', ''channel_info'',
            ''channel_links'', ''config'', ''group_members'', ''meta'', ''slog'', ''user_info''] \<and>
         failures (trace (snd (execute E config (fresh d0)))) =
           List.map_filter snd (outcomes E migration_order (migration_start E config (fresh d0))) \<and>
         selected (trace (snd (execute E config (fresh d0)))) =
           [''servers'', ''channels'', ''users'', ''groups'', ''acl'', ''bans'', ''channel_info'',
            ''channel_links'', ''config'', ''group_members'', ''meta'', ''slog'', ''user_info''] \<and>
         fst (execute E config (fresh d0)) =
           (case close_error E Sqlite of Some e \<Rightarrow> Some e | None \<Rightarrow> close_error E Mysql) \<and>
         closes (trace (snd (execute E config (fresh d0)))) =
           (if close_error E Sqlite = None then [Sqlite, Mysql] else [Sqlite]) \<and>
         (\<exists>evs. closes evs = [] \<and>
            trace (snd (execute E config (fresh d0))) =
              evs @ [Info ''Closing sqlite...'', Close Sqlite] @
                (case close_error E Sqlite of
                   Some e \<Rightarrow> []
                 | None \<Rightarrow>
                     [Info ''Closing mysql...'', Close Mysql] @
                     (case close_error E Mysql of Some e \<Rightarrow> [] | None \<Rightarrow> [Info ''Good bye''])))"
proof -
  let ?s = "attempts E migration_order (migration_start E config (fresh d0))"
  have "closes (trace (snd (closing E ?s))) =
          (if close_error E Sqlite = None then [Sqlite, Mysql] else [Sqlite])"
    using run_projections(3)[OF assms, of d0] by (simp add: execute_run[OF assms])
  then have "closes (trace ?s) = []" by (simp add: closing_projections)
  then have "\<exists>evs. closes evs = [] \<and>
            trace (snd (execute E config (fresh d0))) =
              evs @ [Info ''Closing sqlite...'', Close Sqlite] @
                (case close_error E Sqlite of
                   Some e \<Rightarrow> []
                 | None \<Rightarrow>
                     [Info ''Closing mysql...'', Close Mysql] @
                     (case close_error E Mysql of Some e \<Rightarrow> [] | None \<Rightarrow> [Info ''Good bye'']))"
    using closing_trace[of E ?s] unfolding closing_events_def execute_run[OF assms] by blast
  moreover have "fst (execute E config (fresh d0)) =
           (case close_error E Sqlite of Some e \<Rightarrow> Some e | None \<Rightarrow> close_error E Mysql)"
    by (simp add: execute_run[OF assms] closing_result_def)
  ultimately show ?thesis
    using run_projections[OF assms, of d0] outcomes_names[of E migration_order]
    by (simp add: names_migration_order table_order_def)
qed

lemma outcomes_unreadable:
  "mysql s = Some m \<Longrightarrow> sqlite s = Some c \<Longrightarrow> \<forall>t. mysql_reply E (SelectAll t) = Inl e \<Longrightarrow>
   List.map_filter snd (outcomes E steps s) = replicate (length steps) e"
proof (induction steps arbitrary: s)
  case Nil
  then show ?case by simp
next
  case (Cons p steps)
  obtain label ts where p: "p = (label, ts)" by (cases p)
  have f: "mysql (attempt label (migrateTable E ts) s) = Some m"
          "sqlite (attempt label (migrateTable E ts) s) = Some c"
    using attempt_fields[OF Cons.prems(1,2)] by simp_all
  have "fst (migrateTable E ts (info label s)) = Some e"
    using Cons.prems by (simp add: migrateTable_read_failed[where m = m])
  then show ?case
    using Cons.IH[OF f Cons.prems(3)] by (simp add: p)
qed

text \<open>
  With a source that answers no statement all thirteen routines fail; the
  thirteen failures are logged and both connections are closed.
\<close>

theorem failures_isolated_connections_closed_witness:
  "fst (execute unreadable_env demo_options (fresh demo_stale)) = None \<and>
   failures (trace (snd (execute unreadable_env demo_options (fresh demo_stale)))) =
     replicate 13 ''ER_NO_SUCH_TABLE'' \<and>
   closes (trace (snd (execute unreadable_env demo_options (fresh demo_stale)))) = [Sqlite, Mysql]"
proof -
  have c: "connect_error unreadable_env (mysql_request demo_options) = None"
          "connect_error unreadable_env (sqlite_request demo_options) = None"
    by (simp_all add: unreadable_env_def demo_env_def)
  note ms = migration_start_effect[OF c, of "fresh demo_stale"]
  have len: "length migration_order = 13"
    by (simp add: migration_order_def)
  have "\<forall>t. mysql_reply unreadable_env (SelectAll t) = Inl ''ER_NO_SUCH_TABLE''"
    by (simp add: unreadable_env_def)
  from outcomes_unreadable[OF ms(1,2) this, of migration_order]
  have "List.map_filter snd (outcomes unreadable_env migration_order
          (migration_start unreadable_env demo_options (fresh demo_stale))) =
        replicate 13 ''ER_NO_SUCH_TABLE''"
    by (simp only: len)
  with failures_isolated_connections_closed[OF c, of demo_stale]
  show ?thesis by (simp add: unreadable_env_def demo_env_def)
qed

lemma attempts_trace_prefix:
  "mysql s = Some m \<Longrightarrow> sqlite s = Some c \<Longrightarrow> \<exists>evs. trace (attempts E steps s) = trace s @ evs"
proof (induction steps arbitrary: s)
  case Nil
  then show ?case by simp
next
  case (Cons p steps)
  obtain label ts where p: "p = (label, ts)" by (cases p)
  let ?s = "attempt label (migrateTable E ts) s"
  have f: "mysql ?s = Some m" "sqlite ?s = Some c"
    using attempt_fields[OF Cons.prems] by simp_all
  obtain evs1 where "trace ?s = trace s @ evs1"
    using attempt_trace[OF Cons.prems, of ts label E] by auto
  moreover obtain evs2 where "trace (attempts E steps ?s) = trace ?s @ evs2"
    using Cons.IH[OF f] by blast
  ultimately show ?case by (simp add: p)
qed

lemma selected_append: "selected (xs @ ys) = selected xs @ selected ys"
  by (simp add: selected_def map_filter_append)

text \<open>
  Claim C7. In every run in which both connections open and \<open>checkTables\<close>
  returns false, the line "Databases not ok. Terminating." is logged before
  any table is touched, and after it all thirteen tables are read from the
  source, in order.
\<close>

theorem validation_failure_does_not_stop:
  assumes "connect_error E (mysql_request config) = None"
    and "connect_error E (sqlite_request config) = None"
    and "\<not> fst (checkTables E (provisioned E config (fresh d0)))"
  shows "\<exists>pre post.
           trace (snd (execute E config (fresh d0))) =
             pre @ Error ''Databases not ok. Terminating.'' None # post \<and>
           tables_touched pre = [] \<and>
           selected post =
             [''servers'', ''channels'', ''users'', ''groups'', ''acl'', ''bans'', ''channel_info'',
              ''channel_links'', ''config'', ''group_members'', ''meta'', ''slog'', ''user_info'']"
proof -
  let ?p = "provisioned E config (fresh d0)"
  let ?s = "migration_start E config (fresh d0)"
  note p = provisioned_ok[OF assms(1,2), of "fresh d0"]
  note ms = migration_start_effect[OF assms(1,2), of "fresh d0"]
  obtain evs0 where evs0: "trace (snd (checkTables E ?p)) = trace ?p @ evs0"
    and q0: "\<forall>ev\<in>set evs0. quiet_event ev"
    using checkTables_effect[OF p(1,2), of E] by blast
  define pre where "pre = trace ?p @ evs0"
  have "\<forall>ev\<in>set pre. quiet_event ev"
    using q0 unfolding pre_def p(5) by (auto simp: fresh_def)
  then have pre_quiet: "tables_touched pre = []"
    using quiet_projections[of pre] by simp
  have start: "trace ?s = pre @ [Error ''Databases not ok. Terminating.'' None]"
    using assms(3) evs0 by (simp add: migration_start_def Let_def pre_def)
  have "\<forall>ev\<in>set (trace ?s). quiet_event ev"
    using \<open>\<forall>ev\<in>set pre. quiet_event ev\<close> by (simp add: start)
  then have s0: "selected (trace ?s) = []"
    using quiet_projections[of "trace ?s"] by simp
  obtain evs where evs: "trace (attempts E migration_order ?s) = trace ?s @ evs"
    using attempts_trace_prefix[OF ms(1,2)] by blast
  have "selected (trace ?s @ evs) = selected (trace ?s) @ table_order"
    using attempts_selected[OF ms(1,2), of E migration_order]
    by (simp add: evs names_migration_order)
  then have sel: "selected evs = table_order"
    by (simp add: selected_append s0)
  define post where "post = evs @ closing_events E"
  have "selected post = table_order"
    using sel by (simp add: post_def selected_append closing_events_projections)
  moreover have "trace (snd (execute E config (fresh d0))) =
                   pre @ Error ''Databases not ok. Terminating.'' None # post"
    by (simp add: execute_run[OF assms(1,2)] closing_trace evs start post_def)
  ultimately show ?thesis
    using pre_quiet by (auto simp: table_order_def)
qed

lemma partial_connects:
  "connect_error partial_env (mysql_request demo_options) = None"
  "connect_error partial_env (sqlite_request demo_options) = None"
  by (simp_all add: partial_env_def demo_env_def)

lemma partial_replies:
  "mysql_reply partial_env ShowTables =
     Inr (filter (\<lambda>r. r \<noteq> [(''Tables_in_mumble'', Str ''users'')]) demo_show_tables)"
  "sqlite_master_reply partial_env =
     Inr (filter (\<lambda>r. r \<noteq> [(''name'', Str ''acl'')]) demo_sqlite_master)"
  by (simp_all add: partial_env_def demo_env_def)

theorem validation_failure_does_not_stop_witness:
  "Error ''Databases not ok. Terminating.'' None
     \<in> set (trace (snd (execute partial_env demo_options (fresh demo_stale))))"
proof -
  note p = provisioned_ok[OF partial_connects, of "fresh demo_stale"]
  have "\<not> fst (checkTables partial_env (provisioned partial_env demo_options (fresh demo_stale)))"
    by (simp add: checkTables_connected[OF p(1,2) partial_replies] partial_missing)
  from validation_failure_does_not_stop[OF partial_connects this]
  show ?thesis by auto
qed

section \<open>What a migrated table holds\<close>

lemma map_of_stored_row:
  "map_of (stored_row ts r) =
     (\<lambda>c. if c \<in> set (columns ts)
          then Some (case map_of r c of None \<Rightarrow> Null | Some v \<Rightarrow> if v = Undefined then Null else v)
          else None)"
  by (rule ext)
     (simp add: stored_row_def map_of_zip_map stored_value_def field_def split: option.splits)

lemma stored_row_columns: "map fst (stored_row ts r) = columns ts"
  by (simp add: stored_row_def)

lemma map_of_stored_row_same:
  assumes "fst ` set r = set (columns ts)" and "Undefined \<notin> snd ` set r"
  shows "map_of (stored_row ts r) = map_of r"
proof
  fix c
  show "map_of (stored_row ts r) c = map_of r c"
  proof (cases "c \<in> set (columns ts)")
    case True
    then have "c \<in> fst ` set r" using assms(1) by simp
    then obtain v where v: "map_of r c = Some v"
      by (metis map_of_eq_None_iff not_Some_eq)
    then have "(c, v) \<in> set r" by (rule map_of_SomeD)
    then have "v \<noteq> Undefined" using assms(2) by force
    then show ?thesis using True v by (simp add: map_of_stored_row)
  next
    case False
    then have "c \<notin> fst ` set r" using assms(1) by simp
    then have "map_of r c = None" by (simp add: map_of_eq_None_iff)
    then show ?thesis using False by (simp add: map_of_stored_row)
  qed
qed

text \<open>The columns each routine copies, as the insert statements of the source list them.\<close>

lemma declared_columns:
  assumes "(label, ts) \<in> set migration_order"
  shows "(tname ts, columns ts) \<in> set
     [(''servers'', [''server_id'']),
      (''channels'', [''server_id'', ''channel_id'', ''parent_id'', ''name'', ''inheritacl'']),
      (''users'', [''server_id'', ''user_id'', ''name'', ''pw'', ''salt'', ''kdfiterations'',
                   ''lastchannel'', ''texture'', ''last_active'']),
      (''groups'', [''group_id'', ''server_id'', ''name'', ''channel_id'', ''inherit'',
                    ''inheritable'']),
      (''acl'', [''server_id'', ''channel_id'', ''priority'', ''user_id'', ''group_name'',
                 ''apply_here'', ''apply_sub'', ''grantpriv'', ''revokepriv'']),
      (''bans'', [''server_id'', ''base'', ''mask'', ''name'', ''hash'', ''reason'', ''start'',
                  ''duration'']),
      (''channel_info'', [''server_id'', ''channel_id'', ''key'', ''value'']),
      (''channel_links'', [''server_id'', ''channel_id'', ''link_id'']),
      (''config'', [''server_id'', ''key'', ''value'']),
      (''group_members'', [''group_id'', ''server_id'', ''user_id'', ''addit'']),
      (''meta'', [''keystring'', ''value'']),
      (''slog'', [''server_id'', ''msg'', ''msgtime'']),
      (''user_info'', [''server_id'', ''user_id'', ''key'', ''value''])]"
proof -
  have "ts \<in> {servers_table, channels_table, users_table, groups_table, acl_table, bans_table,
              channel_info_table, channel_links_table, config_table, group_members_table,
              meta_table, slog_table, user_info_table}"
    using assms by (auto simp: migration_order_def)
  then show ?thesis
    by (elim insertE emptyE)
       (simp_all add: servers_table_def channels_table_def users_table_def groups_table_def
          acl_table_def bans_table_def channel_info_table_def channel_links_table_def
          config_table_def group_members_table_def meta_table_def slog_table_def
          user_info_table_def)
qed

text \<open>A routine that returned, seen at the end of the run.\<close>

lemma run_table_migrated:
  assumes "connect_error E (mysql_request config) = None"
    and "connect_error E (sqlite_request config) = None"
    and "(label, ts) \<in> set migration_order"
    and "(tname ts, None) \<in> set (outcomes E migration_order (migration_start E config (fresh d0)))"
  shows "\<exists>rows. mysql_reply E (SelectAll (tname ts)) = Inr rows \<and>
           mset (dest (snd (execute E config (fresh d0))) (tname ts)) =
             mset (map (stored_row ts) rows)"
proof -
  let ?s = "migration_start E config (fresh d0)"
  note ms = migration_start_effect[OF assms(1,2), of "fresh d0"]
  have d: "distinct (names migration_order)"
    by (simp add: names_migration_order distinct_table_order)
  have "inflight ?s = []"
    unfolding ms(5) by (simp add: fresh_def)
  then have free: "\<forall>t\<in>set (names migration_order). pending_free t (inflight ?s)"
    by simp
  obtain rows where rows: "mysql_reply E (SelectAll (tname ts)) = Inr rows"
    and m: "mset (dest (attempts E migration_order ?s) (tname ts)) = mset (map (stored_row ts) rows)"
    and f: "pending_free (tname ts) (inflight (attempts E migration_order ?s))"
    using attempts_success[OF ms(1,2) d free assms(3,4)] by blast
  show ?thesis
    using rows m by (auto simp: execute_run[OF assms(1,2)] closing_dest[OF f])
qed

text \<open>An engine that rejects no insert lets every routine that could read and clear return.\<close>

lemma never_rejected:
  "\<forall>d t r. insert_error E d t r = None \<Longrightarrow> inserts_into t mine \<Longrightarrow>
   \<not> rejected (fst (serve_writes E old mine s))"
proof (induction old mine s rule: serve_writes_induct[where E = E])
  case (settled old s)
  show ?case by simp
next
  case (old old mine s i)
  then show ?case by (simp add: serve_writes_old[OF old(1,2,3)])
next
  case (rejected old mine s j)
  obtain cols vals where q: "mine ! j = InsertInto t cols vals"
    using inserts_into_nth[OF rejected(6,2)] by blast
  have False using rejected(4,5) by (simp add: q)
  then show ?case ..
next
  case (accepted old mine s j)
  show ?case
    using accepted(5)[OF accepted(6) inserts_into_remove[OF accepted(7)]] accepted(4)
    by (simp add: serve_writes_accepted[OF accepted(1,3,4)])
qed

lemma migrateTable_accepted:
  assumes "mysql s = Some m" and "sqlite s = Some c"
    and "mysql_reply E (SelectAll (tname ts)) = Inr rows"
    and "delete_error E (dest s) (tname ts) = None"
    and "\<forall>d t r. insert_error E d t r = None"
  shows "fst (migrateTable E ts s) = None"
proof -
  let ?s = "cleared (tname ts)
              (emit (Query c (DeleteFrom (tname ts))) (emit (Query m (SelectAll (tname ts))) s))"
  have c: "sqlite ?s = Some c" using assms(2) by simp
  have "\<not> rejected (write_results E ts rows ?s)"
    unfolding write_results_def
    by (rule never_rejected[OF assms(5), where t = "tname ts"]) simp
  then show ?thesis
    by (simp add: migrateTable_write[OF assms(1-4)] write_rows_result[OF c] first_rejection_None
          del: write_results_emit)
qed

lemma first_outcome:
  assumes "connect_error E (mysql_request config) = None"
    and "connect_error E (sqlite_request config) = None"
    and "mysql_reply E (SelectAll ''servers'') = Inr rows"
    and "\<forall>d t. delete_error E d t = None"
    and "\<forall>d t r. insert_error E d t r = None"
  shows "(''servers'', None) \<in> set (outcomes E migration_order (migration_start E config (fresh d0)))"
proof -
  let ?s = "migration_start E config (fresh d0)"
  note ms = migration_start_effect[OF assms(1,2), of "fresh d0"]
  have "fst (migrateTable E servers_table (info ''migrating Servers...'' ?s)) = None"
    by (rule migrateTable_accepted[where rows = rows and m = Mysql and c = Sqlite])
       (simp_all add: ms assms servers_table_def)
  then show ?thesis
    by (simp add: migration_order_def servers_table_def)
qed

text \<open>
  Claim C1 as stated fails. The routines read with \<open>select *\<close> and write the
  columns their insert statements name. With a source row of \<open>servers\<close> that
  has a second column, the routine succeeds and the destination row lacks
  that column: the destination rows are not the rows read.
\<close>

theorem extra_column_is_dropped:
  "(''servers'', None) \<in> set (outcomes wide_env migration_order
                              (migration_start wide_env demo_options (fresh demo_stale))) \<and>
   mysql_reply wide_env (SelectAll ''servers'') =
     Inr [[(''server_id'', Num 1), (''comment'', Str ''main'')]] \<and>
   dest (snd (execute wide_env demo_options (fresh demo_stale))) ''servers'' =
     [[(''server_id'', Num 1)]]"
proof -
  have c: "connect_error wide_env (mysql_request demo_options) = None"
          "connect_error wide_env (sqlite_request demo_options) = None"
    by (simp_all add: wide_env_def demo_env_def)
  have reply: "mysql_reply wide_env (SelectAll ''servers'') = Inr wide_servers"
    by (simp add: wide_env_def)
  have ok: "(''servers'', None) \<in> set (outcomes wide_env migration_order
                              (migration_start wide_env demo_options (fresh demo_stale)))"
    by (rule first_outcome[OF c reply]) (simp_all add: wide_env_def demo_env_def)
  have in_order: "(''migrating Servers...'', servers_table) \<in> set migration_order"
    by (simp add: migration_order_def)
  have stored: "map (stored_row servers_table) wide_servers = [[(''server_id'', Num 1)]]"
    by (simp add: stored_row_def servers_table_def wide_servers_def field_def stored_value_def)
  have t: "tname servers_table = ''servers''"
    by (simp add: servers_table_def)
  have "\<exists>rows. Inr wide_servers = Inr rows \<and>
          mset (dest (snd (execute wide_env demo_options (fresh demo_stale))) ''servers'') =
            mset (map (stored_row servers_table) rows)"
    using run_table_migrated[OF c in_order, of demo_stale] ok unfolding t reply by blast
  then have "mset (dest (snd (execute wide_env demo_options (fresh demo_stale))) ''servers'') =
          mset [[(''server_id'', Num 1)]]"
    unfolding stored[symmetric] by (auto simp del: mset_map)
  then have "dest (snd (execute wide_env demo_options (fresh demo_stale))) ''servers'' =
          [[(''server_id'', Num 1)]]"
    by simp
  then show ?thesis using ok reply by (simp add: wide_servers_def)
qed

text \<open>
  Claim C1, amended. In a run in which both connections open, for each of
  the thirteen tables whose routine succeeded: the source answered the
  select with some rows, and at the end of the run the destination table
  holds, as a multiset, one row per row read, made of the columns that the
  routine's insert statement names (listed below for every table): each
  such column carries the value it has in the row read, or NULL when the
  row read lacks it, and a column of the row read that the insert does not
  name is dropped. When the rows read have exactly those columns, the two
  multisets of rows are equal as column-to-value maps. Nothing of what the
  destination table held before the run remains.
\<close>

theorem migrated_table_holds_declared_columns:
  assumes "connect_error E (mysql_request config) = None"
    and "connect_error E (sqlite_request config) = None"
    and "(label, ts) \<in> set migration_order"
    and "(tname ts, None) \<in> set (outcomes E migration_order (migration_start E config (fresh d0)))"
  shows "(tname ts, columns ts) \<in> set
           [(''servers'', [''server_id'']),
            (''channels'', [''server_id'', ''channel_id'', ''parent_id'', ''name'', ''inheritacl'']),
            (''users'', [''server_id'', ''user_id'', ''name'', ''pw'', ''salt'', ''kdfiterations'',
                         ''lastchannel'', ''texture'', ''last_active'']),
            (''groups'', [''group_id'', ''server_id'', ''name'', ''channel_id'', ''inherit'',
                          ''inheritable'']),
            (''acl'', [''server_id'', ''channel_id'', ''priority'', ''user_id'', ''group_name'',
                       ''apply_here'', ''apply_sub'', ''grantpriv'', ''revokepriv'']),
            (''bans'', [''server_id'', ''base'', ''mask'', ''name'', ''hash'', ''reason'', ''start'',
                        ''duration'']),
            (''channel_info'', [''server_id'', ''channel_id'', ''key'', ''value'']),
            (''channel_links'', [''server_id'', ''channel_id'', ''link_id'']),
            (''config'', [''server_id'', ''key'', ''value'']),
            (''group_members'', [''group_id'', ''server_id'', ''user_id'', ''addit'']),
            (''meta'', [''keystring'', ''value'']),
            (''slog'', [''server_id'', ''msg'', ''msgtime'']),
            (''user_info'', [''server_id'', ''user_id'', ''key'', ''value''])] \<and>
         (\<exists>rows. mysql_reply E (SelectAll (tname ts)) = Inr rows \<and>
            (\<forall>d\<in>set (dest (snd (execute E config (fresh d0))) (tname ts)).
                map fst d = columns ts) \<and>
            image_mset map_of (mset (dest (snd (execute E config (fresh d0))) (tname ts))) =
              image_mset
                (\<lambda>r c. if c \<in> set (columns ts)
                       then Some (case map_of r c of
                                    None \<Rightarrow> Null
                                  | Some v \<Rightarrow> if v = Undefined then Null else v)
                       else None)
                (mset rows) \<and>
            ((\<forall>r\<in>set rows. fst ` set r = set (columns ts) \<and> Undefined \<notin> snd ` set r) \<longrightarrow>
               image_mset map_of (mset (dest (snd (execute E config (fresh d0))) (tname ts))) =
                 image_mset map_of (mset rows)))"
proof -
  obtain rows where rows: "mysql_reply E (SelectAll (tname ts)) = Inr rows"
    and m: "mset (dest (snd (execute E config (fresh d0))) (tname ts)) =
              mset (map (stored_row ts) rows)"
    using run_table_migrated[OF assms] by blast
  have "set (dest (snd (execute E config (fresh d0))) (tname ts)) = set (map (stored_row ts) rows)"
    using m by (rule mset_eq_setD)
  then have shape: "\<forall>d\<in>set (dest (snd (execute E config (fresh d0))) (tname ts)).
                      map fst d = columns ts"
    by (auto simp: stored_row_columns)
  have img: "image_mset map_of (mset (dest (snd (execute E config (fresh d0))) (tname ts))) =
        image_mset
          (\<lambda>r c. if c \<in> set (columns ts)
                 then Some (case map_of r c of
                              None \<Rightarrow> Null
                            | Some v \<Rightarrow> if v = Undefined then Null else v)
                 else None)
          (mset rows)"
    unfolding m by (simp add: image_mset.compositionality comp_def map_of_stored_row)
  have same: "image_mset map_of (mset (dest (snd (execute E config (fresh d0))) (tname ts))) =
                image_mset map_of (mset rows)"
    if "\<forall>r\<in>set rows. fst ` set r = set (columns ts) \<and> Undefined \<notin> snd ` set r"
  proof -
    have "map map_of (map (stored_row ts) rows) = map map_of rows"
      using that by (simp add: map_of_stored_row_same)
    then have "image_mset map_of (mset (map (stored_row ts) rows)) = image_mset map_of (mset rows)"
      by (metis mset_map)
    then show ?thesis unfolding m .
  qed
  show ?thesis
    using declared_columns[OF assms(3)] rows shape img same by blast
qed

text \<open>
  The example installation: three servers in the source, five stale ones in
  the destination; after the run the destination holds the three.
\<close>

theorem migrated_table_holds_declared_columns_witness:
  "image_mset map_of (mset (dest (snd (execute demo_env demo_options (fresh demo_stale))) ''servers'')) =
     image_mset map_of (mset demo_servers)"
proof -
  have in_order: "(''migrating Servers...'', servers_table) \<in> set migration_order"
    by (simp add: migration_order_def)
  have reply: "mysql_reply demo_env (SelectAll ''servers'') = Inr demo_servers"
    by (simp add: demo_env_def demo_source_def)
  have ok: "(tname servers_table, None) \<in> set (outcomes demo_env migration_order
              (migration_start demo_env demo_options (fresh demo_stale)))"
    using first_outcome[OF demo_connects reply, of demo_stale]
    by (simp add: demo_env_def servers_table_def)
  have shape: "\<forall>r\<in>set demo_servers.
                 fst ` set r = set (columns servers_table) \<and> Undefined \<notin> snd ` set r"
    by (simp add: demo_servers_def servers_table_def)
  have t: "tname servers_table = ''servers''"
    by (simp add: servers_table_def)
  from migrated_table_holds_declared_columns[OF demo_connects in_order ok]
  show ?thesis
    unfolding t reply using shape by blast
qed

section \<open>Failures inside one table\<close>


lemma deleted_Cons:
  "deleted (ev # evs) =
     (case event_delete ev of None \<Rightarrow> deleted evs | Some t \<Rightarrow> t # deleted evs)"
  by (simp add: deleted_def split: option.splits)

lemma write_phase_issued:
  "inserts_issued (concat (map (\<lambda>r. announcement ts r @ [Query c (insert_stmt ts r)]) rows)) =
     map (insert_stmt ts) rows"
  "deleted (concat (map (\<lambda>r. announcement ts r @ [Query c (insert_stmt ts r)]) rows)) = []"
  by (induction rows)
     (simp_all add: inserts_issued_def deleted_def map_filter_append
        announcement_def insert_stmt_def split: option.splits)

lemma migrateTable_written:
  assumes "mysql s = Some m" and "sqlite s = Some c"
    and "mysql_reply E (SelectAll (tname ts)) = Inr rows"
    and "delete_error E (dest s) (tname ts) = None"
  shows "fst (migrateTable E ts s) = first_rejection (write_results E ts rows (cleared (tname ts) s))"
    and "trace (snd (migrateTable E ts s)) =
           trace s @ [Query m (SelectAll (tname ts)), Query c (DeleteFrom (tname ts))] @
             concat (map (\<lambda>r. announcement ts r @ [Query c (insert_stmt ts r)]) rows)"
    and "pending_free (tname ts) (inflight s) \<Longrightarrow>
         dest (snd (migrateTable E ts s)) (tname ts) =
           accepted (write_results E ts rows (cleared (tname ts) s))"
    and "\<exists>old' rest. inflight (snd (migrateTable E ts s)) = old' @ rest \<and>
           mset old' \<subseteq># mset (inflight s) \<and>
           mset (map fst (write_results E ts rows (cleared (tname ts) s))) + mset rest =
             mset (map (insert_stmt ts) rows)"
proof -
  let ?s = "cleared (tname ts)
              (emit (Query c (DeleteFrom (tname ts))) (emit (Query m (SelectAll (tname ts))) s))"
  have c: "sqlite ?s = Some c" using assms(2) by simp
  show "fst (migrateTable E ts s) = first_rejection (write_results E ts rows (cleared (tname ts) s))"
    by (simp add: migrateTable_write[OF assms] write_rows_result[OF c])
  show "trace (snd (migrateTable E ts s)) =
           trace s @ [Query m (SelectAll (tname ts)), Query c (DeleteFrom (tname ts))] @
             concat (map (\<lambda>r. announcement ts r @ [Query c (insert_stmt ts r)]) rows)"
    by (simp add: migrateTable_write[OF assms] write_rows_trace[OF c])
  show "dest (snd (migrateTable E ts s)) (tname ts) =
           accepted (write_results E ts rows (cleared (tname ts) s))"
    if "pending_free (tname ts) (inflight s)"
  proof -
    have p: "pending_free (tname ts) (inflight ?s)" using that by simp
    show ?thesis
      using write_rows_own_table[OF c p, of E rows] by (simp add: migrateTable_write[OF assms])
  qed
  show "\<exists>old' rest. inflight (snd (migrateTable E ts s)) = old' @ rest \<and>
           mset old' \<subseteq># mset (inflight s) \<and>
           mset (map fst (write_results E ts rows (cleared (tname ts) s))) + mset rest =
             mset (map (insert_stmt ts) rows)"
    using write_rows_inflight[OF c, of E ts rows] by (auto simp: migrateTable_write[OF assms])
qed




text \<open>
  Claim C9 as stated fails: the clear is conditioned on the read. When the
  select on \<open>channels\<close> fails, the routine fails at once; the select is the
  only statement sent and the two stale rows stay in the destination.
\<close>

theorem failed_read_skips_clear:
  "fst (migrateChannels unreadable_env demo_connected) = Some ''ER_NO_SUCH_TABLE'' \<and>
   trace (snd (migrateChannels unreadable_env demo_connected)) =
     [Query Mysql (SelectAll ''channels'')] \<and>
   length (dest (snd (migrateChannels unreadable_env demo_connected)) ''channels'') = 2"
  by (simp add: migrateChannels_def migrateTable_def mysql_query_def unreadable_env_def
        demo_env_def demo_connected_def channels_table_def emit_def demo_stale_def)

text \<open>
  Claim C9, amended. On two opened connections, whenever the read of a table
  succeeds, with any rows or none, the delete on that table is the next
  statement and the only delete of the routine; when the read fails, the
  routine fails with that error right after the select. In particular, when
  the source table is empty and the delete is accepted, the routine succeeds
  and leaves the destination table empty, whatever it held.
\<close>

theorem clear_follows_successful_read:
  assumes "mysql s = Some m" and "sqlite s = Some c"
  shows "(\<forall>rows. mysql_reply E (SelectAll (tname ts)) = Inr rows \<longrightarrow>
            deleted (drop (length (trace s)) (trace (snd (migrateTable E ts s)))) = [tname ts] \<and>
            take 2 (drop (length (trace s)) (trace (snd (migrateTable E ts s)))) =
              [Query m (SelectAll (tname ts)), Query c (DeleteFrom (tname ts))]) \<and>
         (\<forall>e. mysql_reply E (SelectAll (tname ts)) = Inl e \<longrightarrow>
            migrateTable E ts s = (Some e, emit (Query m (SelectAll (tname ts))) s)) \<and>
         (mysql_reply E (SelectAll (tname ts)) = Inr [] \<and>
          delete_error E (dest s) (tname ts) = None \<longrightarrow>
            fst (migrateTable E ts s) = None \<and> dest (snd (migrateTable E ts s)) (tname ts) = [])"
proof -
  have a: "deleted (drop (length (trace s)) (trace (snd (migrateTable E ts s)))) = [tname ts] \<and>
           take 2 (drop (length (trace s)) (trace (snd (migrateTable E ts s)))) =
              [Query m (SelectAll (tname ts)), Query c (DeleteFrom (tname ts))]"
    if r: "mysql_reply E (SelectAll (tname ts)) = Inr rows" for rows
  proof (cases "delete_error E (dest s) (tname ts)")
    case None
    show ?thesis
      by (simp add: migrateTable_written(2)[OF assms r None] deleted_Cons write_phase_issued)
  next
    case (Some e)
    show ?thesis
      by (simp add: migrateTable_delete_failed[OF assms r Some] deleted_def)
  qed
  have b: "fst (migrateTable E ts s) = None \<and> dest (snd (migrateTable E ts s)) (tname ts) = []"
    if r: "mysql_reply E (SelectAll (tname ts)) = Inr []"
      and d: "delete_error E (dest s) (tname ts) = None"
    using assms(2)
    by (simp add: migrateTable_write[OF assms r d] write_rows_def serve_writes_Nil Let_def)
  show ?thesis
    using a b migrateTable_read_failed[OF assms(1), of E ts] by blast
qed

theorem clear_follows_successful_read_witness:
  "dest (snd (migrateChannels demo_env demo_connected)) ''channels'' = []"
proof -
  have h: "mysql demo_connected = Some Mysql" "sqlite demo_connected = Some Sqlite"
    by (simp_all add: demo_connected_def)
  have "mysql_reply demo_env (SelectAll (tname channels_table)) = Inr [] \<and>
        delete_error demo_env (dest demo_connected) (tname channels_table) = None"
    by (simp add: demo_env_def demo_source_def channels_table_def)
  with clear_follows_successful_read[OF h, of demo_env channels_table]
  show ?thesis by (simp add: migrateChannels_def) (simp add: channels_table_def)
qed

end
